theory Spec2Isabelle
  imports Main "HOL-Library.Word"
begin

section \<open>Shared vocabulary\<close>

text \<open>
  A hash (\<open>wire.Hash\<close>) is a fixed 32-byte identifier compared bytewise; it is modelled
  as a 256-bit word. \<open>zeroHash\<close> is the all-zero sentinel \<open>wire.Hash{}\<close>.
\<close>

type_synonym hash = "256 word"

definition zeroHash :: hash where
  "zeroHash = 0"

text \<open>
  Errors of the three packages as values. \<open>RuntimePanic\<close> stands for a Go run-time
  panic (index out of range, nil dereference): the source has no branch for it, the
  language does.
\<close>

datatype error =
    ErrDbClosed
  | ErrPrevShaMissing
  | ErrTxShaMissing
  | ErrDuplicateSha
  | ErrBlockNotExist
  | ErrStartHeight
  | ErrEndHeight
  | ErrParse
  | ErrStackUnderflow
  | ErrBadNumRequired
  | ErrBuilder
  | ErrAddress
  | RuntimePanic

text \<open>A loop body run over a slice, stopping at the first panic or error.\<close>

fun forEach :: "('a \<Rightarrow> 's \<Rightarrow> 's \<times> error option) \<Rightarrow> 'a list \<Rightarrow> 's \<Rightarrow> 's \<times> error option" where
  "forEach f [] s = (s, None)"
| "forEach f (x # xs) s =
     (case f x s of
        (s', None) \<Rightarrow> forEach f xs s'
      | (s', Some e) \<Rightarrow> (s', Some e))"

text \<open>A read-only check run over a slice, returning the first error found.\<close>

fun firstErr :: "('a \<Rightarrow> error option) \<Rightarrow> 'a list \<Rightarrow> error option" where
  "firstErr f [] = None"
| "firstErr f (x # xs) = (case f x of None \<Rightarrow> firstErr f xs | Some e \<Rightarrow> Some e)"

text \<open>
  The conversion \<open>int32(n)\<close> of a Go \<open>int\<close>: two's complement truncation to 32 bits,
  written out on \<open>int\<close>.
\<close>

definition int32 :: "int \<Rightarrow> int" where
  "int32 n = (n + 2147483648) mod 4294967296 - 2147483648"

section \<open>Ledger store: database/memdb/memdb.go\<close>

subsection \<open>Data\<close>

text \<open>
  \<open>wire.OutPoint\<close>: the referenced transaction hash and a \<open>uint32\<close> output index. A
  \<open>wire.TxIn\<close> is read by the store only through its \<open>PreviousOutPoint\<close>, so an input
  is modelled by that outpoint. Of a transaction the store reads its hash
  (\<open>TxHash()\<close>, kept as the field \<open>TxSha\<close>), its inputs and the number of its outputs
  (\<open>len(TxOut)\<close>). Of a block it reads \<open>Header.Previous\<close>, \<open>BlockHash()\<close> (the field
  \<open>BlockSha\<close>) and the transactions.
\<close>

datatype OutPoint = OutPoint (Hash: hash) (Index: "32 word")

record MsgTx =
  TxSha :: hash
  TxIn :: "OutPoint list"
  TxOut :: nat

record MsgBlock =
  Previous :: hash
  BlockSha :: hash
  Transactions :: "MsgTx list"

record tTxInsertData =
  blockHeight :: int
  offset :: nat
  spentBuf :: "bool list"

record MemDb =
  blocks :: "MsgBlock list"
  blocksBySha :: "hash \<rightharpoonup> int"
  txns :: "hash \<rightharpoonup> tTxInsertData list"
  closed :: bool

definition newMemDb :: MemDb where
  "newMemDb = \<lparr>blocks = [], blocksBySha = Map.empty, txns = Map.empty, closed = False\<rparr>"

subsection \<open>Coinbase predicates\<close>

definition isCoinbaseInput :: "OutPoint \<Rightarrow> bool" where
  "isCoinbaseInput prevOut =
     (if Index prevOut = 0xFFFFFFFF \<and> Hash prevOut = zeroHash then True else False)"

text \<open>\<open>isCoinBaseTx\<close> reads \<open>TxIn[0]\<close> unguarded: on a transaction without inputs it panics.\<close>

definition isCoinBaseTx :: "MsgTx \<Rightarrow> error + bool" where
  "isCoinBaseTx msgTx =
     (case TxIn msgTx of
        [] \<Rightarrow> Inl RuntimePanic
      | prevOut # _ \<Rightarrow>
          if Index prevOut \<noteq> 0xFFFFFFFF \<or> \<not> (Hash prevOut = zeroHash) then Inr False
          else Inr True)"

text \<open>
  Modelled from the spec: the method \<open>wire.MsgTx.IsCoinBaseTx\<close> that \<open>removeTx\<close> calls is
  not among the sources. The specification names one transaction predicate, "first input
  is a coinbase input", used by both \<open>insert_block\<close> and \<open>remove_tx\<close>.
\<close>

definition IsCoinBaseTx :: "MsgTx \<Rightarrow> error + bool" where
  "IsCoinBaseTx msgTx =
     (case TxIn msgTx of
        [] \<Rightarrow> Inl RuntimePanic
      | prevOut # _ \<Rightarrow> Inr (Index prevOut = 0xFFFFFFFF \<and> Hash prevOut = zeroHash))"

definition isFullySpent :: "tTxInsertData \<Rightarrow> bool" where
  "isFullySpent txD = list_all (\<lambda>spent. spent) (spentBuf txD)"

subsection \<open>InsertBlock\<close>

text \<open>The in-flight map: a later transaction with the same hash overwrites the index.\<close>

definition buildInFlight :: "MsgTx list \<Rightarrow> (hash \<rightharpoonup> nat)" where
  "buildInFlight transactions =
     fold (\<lambda>(i, tx) m. m(TxSha tx \<mapsto> i)) (enumerate 0 transactions) Map.empty"

text \<open>
  The check of one input in the validation loop. The bound on the output index is
  written as the source has it: \<open>prevOut.Index > uint32(len(originTxD.spentBuf))\<close>.
\<close>

definition checkInput :: "MemDb \<Rightarrow> (hash \<rightharpoonup> nat) \<Rightarrow> nat \<Rightarrow> MsgTx \<Rightarrow> OutPoint \<Rightarrow> error option" where
  "checkInput db txInFlight i tx prevOut =
     (if isCoinbaseInput prevOut then None
      else case isCoinBaseTx tx of
        Inl e \<Rightarrow> Some e
      | Inr True \<Rightarrow> None
      | Inr False \<Rightarrow>
          (case txInFlight (Hash prevOut) of
             Some inFlightIndex \<Rightarrow>
               if i \<le> inFlightIndex then Some ErrTxShaMissing else None
           | None \<Rightarrow>
               (case txns db (Hash prevOut) of
                  None \<Rightarrow> Some ErrTxShaMissing
                | Some originTxns \<Rightarrow>
                    if originTxns = [] then Some RuntimePanic
                    else if Index prevOut > (of_nat (length (spentBuf (last originTxns))) :: 32 word)
                    then Some ErrTxShaMissing
                    else None)))"

definition checkTx :: "MemDb \<Rightarrow> (hash \<rightharpoonup> nat) \<Rightarrow> nat \<times> MsgTx \<Rightarrow> error option" where
  "checkTx db txInFlight itx =
     (case itx of (i, tx) \<Rightarrow>
       (case firstErr (checkInput db txInFlight i tx) (TxIn tx) of
          Some e \<Rightarrow> Some e
        | None \<Rightarrow>
            if (case txInFlight (TxSha tx) of Some inFlightIndex \<Rightarrow> inFlightIndex < i | None \<Rightarrow> False)
            then Some ErrDuplicateSha
            else (case txns db (TxSha tx) of
                    None \<Rightarrow> None
                  | Some txs \<Rightarrow>
                      if txs = [] then Some RuntimePanic
                      else if \<not> isFullySpent (last txs) then Some ErrDuplicateSha
                      else None)))"

text \<open>
  The spend of one input in the second loop:
  \<open>originTxns[len(originTxns)-1].spentBuf[prevOut.Index] = true\<close>, with the two index
  operations checked as Go checks them.
\<close>

definition setSpent :: "bool \<Rightarrow> OutPoint \<Rightarrow> MemDb \<Rightarrow> MemDb \<times> error option" where
  "setSpent v prevOut db =
     (case txns db (Hash prevOut) of
        None \<Rightarrow> (db, Some RuntimePanic)
      | Some originTxns \<Rightarrow>
          if originTxns = [] then (db, Some RuntimePanic)
          else if unat (Index prevOut) < length (spentBuf (last originTxns))
          then (db\<lparr>txns := (txns db)(Hash prevOut \<mapsto>
                  butlast originTxns @
                  [(last originTxns)\<lparr>spentBuf :=
                      (spentBuf (last originTxns))[unat (Index prevOut) := v]\<rparr>])\<rparr>, None)
          else (db, Some RuntimePanic))"

definition spendInput :: "MsgTx \<Rightarrow> OutPoint \<Rightarrow> MemDb \<Rightarrow> MemDb \<times> error option" where
  "spendInput tx prevOut db =
     (if isCoinbaseInput prevOut then (db, None)
      else case isCoinBaseTx tx of
        Inl e \<Rightarrow> (db, Some e)
      | Inr True \<Rightarrow> (db, None)
      | Inr False \<Rightarrow> setSpent True prevOut db)"

definition insertTx :: "int \<Rightarrow> nat \<times> MsgTx \<Rightarrow> MemDb \<Rightarrow> MemDb \<times> error option" where
  "insertTx newHeight itx db =
     (case itx of (i, tx) \<Rightarrow>
       (let txD = \<lparr>blockHeight = newHeight, offset = i, spentBuf = replicate (TxOut tx) False\<rparr>;
            db1 = db\<lparr>txns := (txns db)(TxSha tx \<mapsto>
                    (case txns db (TxSha tx) of None \<Rightarrow> [] | Some txs \<Rightarrow> txs) @ [txD])\<rparr>
        in case isCoinBaseTx tx of
             Inl e \<Rightarrow> (db1, Some e)
           | Inr True \<Rightarrow> (db1, None)
           | Inr False \<Rightarrow> forEach (spendInput tx) (TxIn tx) db1))"

definition InsertBlock :: "MemDb \<Rightarrow> MsgBlock \<Rightarrow> MemDb \<times> (error + int)" where
  "InsertBlock db block =
     (if closed db then (db, Inl ErrDbClosed)
      else if blocksBySha db (Previous block) = None \<and> length (blocks db) > 0
      then (db, Inl ErrPrevShaMissing)
      else
        let txInFlight = buildInFlight (Transactions block);
            newHeight = int32 (int (length (blocks db)))
        in case firstErr (checkTx db txInFlight) (enumerate 0 (Transactions block)) of
             Some e \<Rightarrow> (db, Inl e)
           | None \<Rightarrow>
               (let db1 = db\<lparr>blocks := blocks db @ [block],
                             blocksBySha := (blocksBySha db)(BlockSha block \<mapsto> newHeight)\<rparr>
                in case forEach (insertTx newHeight) (enumerate 0 (Transactions block)) db1 of
                     (db2, Some e) \<Rightarrow> (db2, Inl e)
                   | (db2, None) \<Rightarrow> (db2, Inr newHeight)))"

subsection \<open>DropAfterBlockBySha\<close>

text \<open>
  \<open>removeTx\<close>: the unspend loop over the inputs (an input whose origin is absent is logged
  and skipped), then the pop of the most recent entry of the transaction itself;
  \<open>txns[lastIndex]\<close> with \<open>lastIndex = -1\<close> panics.
\<close>

definition unspendInput :: "MsgTx \<Rightarrow> OutPoint \<Rightarrow> MemDb \<Rightarrow> MemDb \<times> error option" where
  "unspendInput msgTx prevOut db =
     (if isCoinbaseInput prevOut then (db, None)
      else case IsCoinBaseTx msgTx of
        Inl e \<Rightarrow> (db, Some e)
      | Inr True \<Rightarrow> (db, None)
      | Inr False \<Rightarrow>
          (case txns db (Hash prevOut) of
             None \<Rightarrow> (db, None)
           | Some originTxns \<Rightarrow> setSpent False prevOut db))"

definition removeTx :: "MsgTx \<Rightarrow> hash \<Rightarrow> MemDb \<Rightarrow> MemDb \<times> error option" where
  "removeTx msgTx txHash db =
     (case forEach (unspendInput msgTx) (TxIn msgTx) db of
        (db1, Some e) \<Rightarrow> (db1, Some e)
      | (db1, None) \<Rightarrow>
          (let txs = (case txns db1 txHash of None \<Rightarrow> [] | Some txs \<Rightarrow> txs)
           in if txs = [] then (db1, Some RuntimePanic)
              else if butlast txs = [] then (db1\<lparr>txns := (txns db1)(txHash := None)\<rparr>, None)
              else (db1\<lparr>txns := (txns db1)(txHash \<mapsto> butlast txs)\<rparr>, None)))"

function dropLoop :: "int \<Rightarrow> int \<Rightarrow> MemDb \<Rightarrow> MemDb \<times> error option" where
  "dropLoop i height db =
     (if i > height then
        (if 0 \<le> i \<and> nat i < length (blocks db) then
           (case forEach (\<lambda>tx. removeTx tx (TxSha tx))
                   (rev (Transactions (blocks db ! nat i))) db of
              (db1, Some e) \<Rightarrow> (db1, Some e)
            | (db1, None) \<Rightarrow>
                dropLoop (i - 1) height (db1\<lparr>blocks := take (nat i) (blocks db1)\<rparr>))
         else (db, Some RuntimePanic))
      else (db, None))"
  by pat_completeness auto
termination
  by (relation "measure (\<lambda>(i, height, db). nat (i - height))") auto

definition DropAfterBlockBySha :: "MemDb \<Rightarrow> hash \<Rightarrow> MemDb \<times> error option" where
  "DropAfterBlockBySha db sha =
     (if closed db then (db, Some ErrDbClosed)
      else case blocksBySha db sha of
        None \<Rightarrow> (db, Some ErrBlockNotExist)
      | Some height \<Rightarrow> dropLoop (int32 (int (length (blocks db)) - 1)) height db)"

subsection \<open>Sequences of inserts and the order on spend states\<close>

text \<open>
  A sequence of valid inserts: every \<open>InsertBlock\<close> returns a height; the result is the
  store after the last one.
\<close>

fun insertBlocks :: "MemDb \<Rightarrow> MsgBlock list \<Rightarrow> MemDb option" where
  "insertBlocks db [] = Some db"
| "insertBlocks db (b # bs) =
     (case InsertBlock db b of
        (db', Inr newHeight) \<Rightarrow> insertBlocks db' bs
      | (db', Inl e) \<Rightarrow> None)"

text \<open>
  The order used to follow a rollback. One entry is below another when they agree on
  height, offset and number of outputs and every flag set in the first is set in the
  second; one tx map is below another when they have the same keys and lists of the
  same length, entry by entry below. \<open>allUnspent\<close>: no flag is set. \<open>nonEmptyLists\<close>: no
  key maps to the empty list. \<open>frame\<close>: the fields of the store other than the tx map.
\<close>

definition le_entry :: "tTxInsertData \<Rightarrow> tTxInsertData \<Rightarrow> bool" where
  "le_entry e' e \<longleftrightarrow>
     blockHeight e' = blockHeight e \<and> offset e' = offset e \<and>
     list_all2 (\<lambda>x y. x \<longrightarrow> y) (spentBuf e') (spentBuf e)"

definition le_txns ::
  "(hash \<rightharpoonup> tTxInsertData list) \<Rightarrow> (hash \<rightharpoonup> tTxInsertData list) \<Rightarrow> bool" where
  "le_txns m' m \<longleftrightarrow> (\<forall>h. rel_option (list_all2 le_entry) (m' h) (m h))"

definition allUnspent :: "(hash \<rightharpoonup> tTxInsertData list) \<Rightarrow> bool" where
  "allUnspent m \<longleftrightarrow> (\<forall>h es. m h = Some es \<longrightarrow> (\<forall>e \<in> set es. \<forall>spent \<in> set (spentBuf e). \<not> spent))"

definition frame :: "MemDb \<Rightarrow> MsgBlock list \<times> (hash \<rightharpoonup> int) \<times> bool" where
  "frame db = (blocks db, blocksBySha db, closed db)"

definition nonEmptyLists :: "(hash \<rightharpoonup> tTxInsertData list) \<Rightarrow> bool" where
  "nonEmptyLists m \<longleftrightarrow> (\<forall>h. m h \<noteq> Some [])"

subsection \<open>FetchHeightRange\<close>

text \<open>
  The loop of \<open>FetchHeightRange\<close>. The counter is an \<open>int32\<close>; inside the loop it is
  below \<open>endHeight\<close>, so \<open>i++\<close> does not wrap.
\<close>

function fetchLoop :: "MsgBlock list \<Rightarrow> int \<Rightarrow> int \<Rightarrow> int \<Rightarrow> hash list \<Rightarrow> error + hash list" where
  "fetchLoop bs i endHeight lastBlockIndex hashList =
     (if i < endHeight then
        (if i > lastBlockIndex then Inr hashList
         else if 0 \<le> i \<and> nat i < length bs
         then fetchLoop bs (i + 1) endHeight lastBlockIndex (hashList @ [BlockSha (bs ! nat i)])
         else Inl RuntimePanic)
      else Inr hashList)"
  by pat_completeness auto
termination
  by (relation "measure (\<lambda>(bs, i, endHeight, lastBlockIndex, hashList). nat (endHeight - i))") auto

text \<open>
  The two heights are \<open>int32\<close> arguments, read as two's complement. The caller's
  \<open>endHeight\<close> is overwritten before it is read.
\<close>

definition FetchHeightRange :: "MemDb \<Rightarrow> 32 word \<Rightarrow> 32 word \<Rightarrow> error + hash list" where
  "FetchHeightRange db startHeight endHeight0 =
     (if closed db then Inl ErrDbClosed
      else
        let endHeight = int32 (int (length (blocks db))) in
        if sint startHeight < 0 then Inl ErrStartHeight
        else if endHeight < sint startHeight then Inl ErrEndHeight
        else fetchLoop (blocks db) (sint startHeight) endHeight
               (int32 (int (length (blocks db)) - 1)) [])"

section \<open>Standard scripts: txscript/standard.go\<close>

subsection \<open>Opcodes and parsed scripts\<close>

type_synonym byte = "8 word"

text \<open>
  Modelled from the spec: the opcode table is not among the sources. The specification
  fixes the byte format as Bitcoin-style: \<open>OP_0 = 0x00\<close>, direct pushes \<open>0x01..0x4b\<close>
  carrying their length in the opcode, \<open>PUSHDATA1/2/4\<close>, \<open>OP_1..OP_16\<close> for the integers
  1 to 16, \<open>OP_RETURN = 0x6a\<close> and \<open>OP_CHECKMULTISIG = 0xae\<close> (scenario S1);
  \<open>MaxDataCarrierSize\<close> is 80 (scenario S2).
\<close>

definition OP_0 :: byte where "OP_0 = 0x00"
definition OP_DATA_8 :: byte where "OP_DATA_8 = 0x08"
definition OP_DATA_20 :: byte where "OP_DATA_20 = 0x14"
definition OP_DATA_32 :: byte where "OP_DATA_32 = 0x20"
definition OP_DATA_75 :: byte where "OP_DATA_75 = 0x4b"
definition OP_PUSHDATA1 :: byte where "OP_PUSHDATA1 = 0x4c"
definition OP_PUSHDATA2 :: byte where "OP_PUSHDATA2 = 0x4d"
definition OP_PUSHDATA4 :: byte where "OP_PUSHDATA4 = 0x4e"
definition OP_1NEGATE :: byte where "OP_1NEGATE = 0x4f"
definition OP_1 :: byte where "OP_1 = 0x51"
definition OP_16 :: byte where "OP_16 = 0x60"
definition OP_RETURN :: byte where "OP_RETURN = 0x6a"
definition OP_DROP :: byte where "OP_DROP = 0x75"
definition OP_EQUAL :: byte where "OP_EQUAL = 0x87"
definition OP_HASH160 :: byte where "OP_HASH160 = 0xa9"
definition OP_CHECKMULTISIG :: byte where "OP_CHECKMULTISIG = 0xae"
definition OP_CHECKSEQUENCEVERIFY :: byte where "OP_CHECKSEQUENCEVERIFY = 0xb2"

definition MaxDataCarrierSize :: nat where "MaxDataCarrierSize = 80"

text \<open>
  A parsed opcode: the opcode value and its data, \<open>None\<close> for the \<open>nil\<close> slice of an
  opcode that carries none.
\<close>

record parsedOpcode =
  opcode :: byte
  data :: "byte list option"

datatype ScriptClass =
    NonStandardTy
  | MultiSigTy
  | NullDataTy
  | WitnessV0ScriptHashTy
  | LocktimeScriptHashTy

definition consPop :: "parsedOpcode \<Rightarrow> error + parsedOpcode list \<Rightarrow> error + parsedOpcode list" where
  "consPop pop r = (case r of Inl e \<Rightarrow> Inl e | Inr pops \<Rightarrow> Inr (pop # pops))"

text \<open>
  Modelled from the spec: \<open>parseScript\<close> is not among the sources. It decodes a byte
  sequence into parsed opcodes or fails; data is present only for the push opcodes
  (direct push, \<open>PUSHDATA1/2/4\<close>, lengths little-endian), and a push that runs past the
  end of the script is a parse error.
\<close>

fun parseScript :: "byte list \<Rightarrow> error + parsedOpcode list" where
  "parseScript [] = Inr []"
| "parseScript (b # rest) =
     (if 1 \<le> b \<and> b \<le> OP_DATA_75 then
        (if length rest < unat b then Inl ErrParse
         else consPop \<lparr>opcode = b, data = Some (take (unat b) rest)\<rparr>
                (parseScript (drop (unat b) rest)))
      else if b = OP_PUSHDATA1 then
        (case rest of
           l0 # r \<Rightarrow>
             if length r < unat l0 then Inl ErrParse
             else consPop \<lparr>opcode = b, data = Some (take (unat l0) r)\<rparr>
                    (parseScript (drop (unat l0) r))
         | _ \<Rightarrow> Inl ErrParse)
      else if b = OP_PUSHDATA2 then
        (case rest of
           l0 # l1 # r \<Rightarrow>
             if length r < unat l0 + 256 * unat l1 then Inl ErrParse
             else consPop \<lparr>opcode = b, data = Some (take (unat l0 + 256 * unat l1) r)\<rparr>
                    (parseScript (drop (unat l0 + 256 * unat l1) r))
         | _ \<Rightarrow> Inl ErrParse)
      else if b = OP_PUSHDATA4 then
        (case rest of
           l0 # l1 # l2 # l3 # r \<Rightarrow>
             if length r < unat l0 + 256 * unat l1 + 65536 * unat l2 + 16777216 * unat l3
             then Inl ErrParse
             else consPop \<lparr>opcode = b,
                    data = Some (take (unat l0 + 256 * unat l1 + 65536 * unat l2 + 16777216 * unat l3) r)\<rparr>
                    (parseScript (drop (unat l0 + 256 * unat l1 + 65536 * unat l2 + 16777216 * unat l3) r))
         | _ \<Rightarrow> Inl ErrParse)
      else consPop \<lparr>opcode = b, data = None\<rparr> (parseScript rest))"

text \<open>
  Modelled from the spec: \<open>isSmallInt\<close> is not among the sources. A small integer push
  is \<open>OP_0\<close> or one of \<open>OP_1..OP_16\<close>.
\<close>

definition isSmallInt :: "byte \<Rightarrow> bool" where
  "isSmallInt op = (op = OP_0 \<or> (OP_1 \<le> op \<and> op \<le> OP_16))"

text \<open>
  Modelled from the spec: \<open>asSmallInt\<close> is not among the sources. \<open>OP_0\<close> is the number 0
  and \<open>OP_1..OP_16\<close> are the numbers 1 to 16. On any other opcode (\<open>CalcMultiSigStats\<close>
  does not check) the byte difference to \<open>OP_1 - 1\<close> is taken.
\<close>

definition asSmallInt :: "byte \<Rightarrow> int" where
  "asSmallInt op = (if op = OP_0 then 0 else int (unat (op - (OP_1 - 1))))"

text \<open>\<open>len(pop.data)\<close>: the length of a \<open>nil\<close> slice is 0.\<close>

definition dataLen :: "parsedOpcode \<Rightarrow> nat" where
  "dataLen pop = (case data pop of None \<Rightarrow> 0 | Some d \<Rightarrow> length d)"

subsection \<open>Classification\<close>

definition isMultiSig :: "parsedOpcode list \<Rightarrow> bool" where
  "isMultiSig pops =
     (let l = length pops in
      if l < 4 then False
      else if \<not> isSmallInt (opcode (pops ! 0)) then False
      else if \<not> isSmallInt (opcode (pops ! (l - 2))) then False
      else if opcode (pops ! (l - 1)) \<noteq> OP_CHECKMULTISIG then False
      else if int l - 2 - 1 \<noteq> asSmallInt (opcode (pops ! (l - 2))) then False
      else list_all (\<lambda>pop. \<not> (dataLen pop \<noteq> 33 \<and> dataLen pop \<noteq> 65))
             (take (l - 2 - 1) (drop 1 pops)))"

definition isNullData :: "parsedOpcode list \<Rightarrow> bool" where
  "isNullData pops =
     (let l = length pops in
      if l = 1 \<and> opcode (pops ! 0) = OP_RETURN then True
      else l = 2 \<and> opcode (pops ! 0) = OP_RETURN \<and> opcode (pops ! 1) \<le> OP_PUSHDATA4 \<and>
           dataLen (pops ! 1) \<le> MaxDataCarrierSize)"

text \<open>
  Modelled from the spec: \<open>isWitnessScriptHash\<close> is not among the sources. The witness
  form is the pattern \<open>OP_0 0x20 <32 bytes>\<close>.
\<close>

definition isWitnessScriptHash :: "parsedOpcode list \<Rightarrow> bool" where
  "isWitnessScriptHash pops =
     (length pops = 2 \<and> opcode (pops ! 0) = OP_0 \<and> opcode (pops ! 1) = OP_DATA_32)"

text \<open>
  Modelled from the spec: \<open>isLocktimeScriptHash\<close> is not among the sources. The locktime
  form is the pattern \<open><push-8> CHECKSEQUENCEVERIFY DROP HASH160 0x14 <20 bytes> EQUAL\<close>.
\<close>

definition isLocktimeScriptHash :: "parsedOpcode list \<Rightarrow> bool" where
  "isLocktimeScriptHash pops =
     (length pops = 6 \<and> opcode (pops ! 0) = OP_DATA_8 \<and>
      opcode (pops ! 1) = OP_CHECKSEQUENCEVERIFY \<and> opcode (pops ! 2) = OP_DROP \<and>
      opcode (pops ! 3) = OP_HASH160 \<and> opcode (pops ! 4) = OP_DATA_20 \<and>
      opcode (pops ! 5) = OP_EQUAL)"

definition typeOfScript :: "parsedOpcode list \<Rightarrow> ScriptClass" where
  "typeOfScript pops =
     (if isMultiSig pops then MultiSigTy
      else if isNullData pops then NullDataTy
      else if isWitnessScriptHash pops then WitnessV0ScriptHashTy
      else if isLocktimeScriptHash pops then LocktimeScriptHashTy
      else NonStandardTy)"

definition GetScriptClass :: "byte list \<Rightarrow> ScriptClass" where
  "GetScriptClass script =
     (case parseScript script of
        Inl e \<Rightarrow> NonStandardTy
      | Inr pops \<Rightarrow> typeOfScript pops)"

subsection \<open>Script builder\<close>

text \<open>
  The \<open>ScriptBuilder\<close> is not among the sources. By the specification its constructors
  are pure and return a serialized script, or an error when an input violates the size
  bounds; a data push is the Bitcoin-style length-prefixed encoding and an integer push
  is \<open>OP_0\<close> for 0 and \<open>OP_1..OP_16\<close> for 1 to 16.
\<close>

text \<open>
  Modelled from the spec: the two size bounds of the builder. The specification names
  them without a value; the values of the Bitcoin script format are taken, 10000 bytes
  for a script and 520 bytes for a pushed element.
\<close>

definition maxScriptSize :: nat where "maxScriptSize = 10000"
definition MaxScriptElementSize :: nat where "MaxScriptElementSize = 520"

text \<open>
  Modelled from the spec: the state of a \<open>ScriptBuilder\<close>, the script built so far and the
  first error met; once an error is set, every further step leaves the builder as it is.
\<close>

record ScriptBuilder =
  script :: "byte list"
  err :: "error option"

definition NewScriptBuilder :: ScriptBuilder where
  "NewScriptBuilder = \<lparr>script = [], err = None\<rparr>"

text \<open>Modelled from the spec: \<open>AddOp\<close> appends one opcode byte, within the script bound.\<close>

definition AddOp :: "byte \<Rightarrow> ScriptBuilder \<Rightarrow> ScriptBuilder" where
  "AddOp op b =
     (if err b \<noteq> None then b
      else if length (script b) + 1 > maxScriptSize then b\<lparr>err := Some ErrBuilder\<rparr>
      else b\<lparr>script := script b @ [op]\<rparr>)"

text \<open>
  Modelled from the spec: the encoding of a data push. Up to 75 bytes the opcode is the
  length (a direct push); longer data takes \<open>PUSHDATA1\<close>, \<open>PUSHDATA2\<close> or \<open>PUSHDATA4\<close> with
  a little-endian length of 1, 2 or 4 bytes.
\<close>

definition pushData :: "byte list \<Rightarrow> byte list" where
  "pushData d =
     (let n = length d in
      if n < unat OP_PUSHDATA1 then of_nat n # d
      else if n \<le> 0xff then OP_PUSHDATA1 # of_nat n # d
      else if n \<le> 0xffff then OP_PUSHDATA2 # of_nat (n mod 256) # of_nat (n div 256) # d
      else OP_PUSHDATA4 # of_nat (n mod 256) # of_nat (n div 256 mod 256) #
             of_nat (n div 65536 mod 256) # of_nat (n div 16777216) # d)"

text \<open>Modelled from the spec: \<open>AddData\<close> appends a data push, within the two bounds.\<close>

definition AddData :: "byte list \<Rightarrow> ScriptBuilder \<Rightarrow> ScriptBuilder" where
  "AddData d b =
     (if err b \<noteq> None then b
      else if length (script b) + length (pushData d) > maxScriptSize
      then b\<lparr>err := Some ErrBuilder\<rparr>
      else if length d > MaxScriptElementSize then b\<lparr>err := Some ErrBuilder\<rparr>
      else b\<lparr>script := script b @ pushData d\<rparr>)"

text \<open>
  Modelled from the spec: the bytes of an integer outside 0 to 16 when it is pushed as
  data. The specification fixes only the small integers; the Bitcoin script number is
  taken, little-endian magnitude with the sign in the top bit of the last byte.
\<close>

fun leBytes :: "nat \<Rightarrow> byte list" where
  "leBytes n = (if n = 0 then [] else of_nat (n mod 256) # leBytes (n div 256))"

definition scriptNumBytes :: "int \<Rightarrow> byte list" where
  "scriptNumBytes n =
     (if n = 0 then []
      else let bs = leBytes (nat \<bar>n\<bar>) in
        if 128 \<le> unat (last bs) then bs @ [if n < 0 then 0x80 else 0x00]
        else if n < 0 then butlast bs @ [last bs + 0x80]
        else bs)"

text \<open>
  Modelled from the spec: \<open>AddInt64\<close> pushes \<open>OP_0\<close> for 0 and \<open>OP_1..OP_16\<close> for 1 to 16
  (and \<open>OP_1NEGATE\<close>, the opcode before \<open>OP_1 - 1\<close>, for -1); any other integer is pushed
  as data.
\<close>

definition AddInt64 :: "int \<Rightarrow> ScriptBuilder \<Rightarrow> ScriptBuilder" where
  "AddInt64 val b =
     (if err b \<noteq> None then b
      else if length (script b) + 1 > maxScriptSize then b\<lparr>err := Some ErrBuilder\<rparr>
      else if val = 0 then b\<lparr>script := script b @ [OP_0]\<rparr>
      else if val = - 1 \<or> (1 \<le> val \<and> val \<le> 16)
      then b\<lparr>script := script b @ [of_int (int (unat (OP_1 - 1)) + val)]\<rparr>
      else AddData (scriptNumBytes val) b)"

text \<open>Modelled from the spec: \<open>Script\<close> returns the script built, or the error met.\<close>

definition Script :: "ScriptBuilder \<Rightarrow> error + byte list" where
  "Script b = (case err b of Some e \<Rightarrow> Inl e | None \<Rightarrow> Inr (script b))"

definition payToWitnessScriptHashScript :: "byte list \<Rightarrow> error + byte list" where
  "payToWitnessScriptHashScript scriptHash =
     Script (AddData scriptHash (AddOp OP_0 NewScriptBuilder))"

text \<open>
  \<open>MultiSigScript\<close>: a public key is represented by its serialized form, the bytes
  that \<open>key.ScriptAddress()\<close> returns; \<open>nrequired\<close> is a Go \<open>int\<close>.
\<close>

definition MultiSigScript :: "byte list list \<Rightarrow> int \<Rightarrow> error + byte list" where
  "MultiSigScript pubkeys nrequired =
     (if int (length pubkeys) < nrequired then Inl ErrBadNumRequired
      else Script (AddOp OP_CHECKMULTISIG
                    (AddInt64 (int (length pubkeys))
                      (fold AddData pubkeys (AddInt64 nrequired NewScriptBuilder)))))"

subsection \<open>Script analysis\<close>

definition PushedData :: "byte list \<Rightarrow> error + byte list list" where
  "PushedData scr =
     (case parseScript scr of
        Inl e \<Rightarrow> Inl e
      | Inr pops \<Rightarrow>
          Inr (concat (map (\<lambda>pop. case data pop of
                                    Some d \<Rightarrow> [d]
                                  | None \<Rightarrow> if opcode pop = OP_0 then [[]] else []) pops)))"

definition CalcMultiSigStats :: "byte list \<Rightarrow> error + int \<times> int" where
  "CalcMultiSigStats scr =
     (case parseScript scr of
        Inl e \<Rightarrow> Inl e
      | Inr pops \<Rightarrow>
          if length pops < 4 then Inl ErrStackUnderflow
          else
            let numSigs = asSmallInt (opcode (pops ! 0));
                numPubKeys = asSmallInt (opcode (pops ! (length pops - 2)))
            in Inr (numPubKeys, numSigs))"

text \<open>A Go slice index \<open>xs[i]\<close>: a run-time panic outside \<open>0 \<le> i < len(xs)\<close>.\<close>

definition index :: "'a list \<Rightarrow> int \<Rightarrow> error + 'a" where
  "index xs i = (if 0 \<le> i \<and> i < int (length xs) then Inr (xs ! nat i) else Inl RuntimePanic)"

definition expectedInputs :: "parsedOpcode list \<Rightarrow> ScriptClass \<Rightarrow> error + int" where
  "expectedInputs pops class =
     (case class of
        WitnessV0ScriptHashTy \<Rightarrow> Inr 1
      | LocktimeScriptHashTy \<Rightarrow> Inr 1
      | MultiSigTy \<Rightarrow>
          (case index pops 0 of Inl e \<Rightarrow> Inl e | Inr pop \<Rightarrow> Inr (asSmallInt (opcode pop)))
      | NullDataTy \<Rightarrow> Inr (- 1)
      | NonStandardTy \<Rightarrow> Inr (- 1))"

record ScriptInfo =
  PkScriptClass :: ScriptClass
  NumInputs :: int
  ExpectedInputs :: int
  SigOps :: int

text \<open>
  The three signature-operation counters that \<open>CalcScriptInfo\<close> delegates to
  (\<open>GetWitnessSigOpCount\<close>, \<open>GetLocktimeScriptSigOpCount\<close>, \<open>getSigOpCount\<close>) are not among
  the sources; they are parameters of the model.
\<close>

record sigOpCounters =
  GetWitnessSigOpCount :: "byte list \<Rightarrow> byte list list \<Rightarrow> int"
  GetLocktimeScriptSigOpCount :: "byte list \<Rightarrow> byte list list \<Rightarrow> int"
  getSigOpCount :: "parsedOpcode list \<Rightarrow> bool \<Rightarrow> int"

text \<open>
  Modelled from the spec: what \<open>pops, _ := parseScript(...)\<close> leaves in \<open>pops\<close> when the
  error is dropped. By the specification a parse failure yields the empty opcode list.
\<close>

definition parseIgnoreErr :: "byte list \<Rightarrow> parsedOpcode list" where
  "parseIgnoreErr scr = (case parseScript scr of Inl e \<Rightarrow> [] | Inr pops \<Rightarrow> pops)"

definition addShInputs :: "int \<Rightarrow> int \<Rightarrow> int" where
  "addShInputs expected shInputs = (if shInputs = - 1 then - 1 else expected + shInputs)"

definition CalcScriptInfo ::
  "sigOpCounters \<Rightarrow> byte list \<Rightarrow> byte list list \<Rightarrow> error + ScriptInfo" where
  "CalcScriptInfo cnt pkScript witness =
     (case parseScript pkScript of
        Inl e \<Rightarrow> Inl e
      | Inr pkPops \<Rightarrow>
         (let class = typeOfScript pkPops in
          (case expectedInputs pkPops class of
             Inl e \<Rightarrow> Inl e
           | Inr expected \<Rightarrow>
              (case index witness (int (length witness) - 1) of
                 Inl e \<Rightarrow> Inl e
               | Inr witnessScript \<Rightarrow>
                  (let pops = parseIgnoreErr witnessScript in
                   (case index witness 0 of
                      Inl e \<Rightarrow> Inl e
                    | Inr witnesssig \<Rightarrow>
                       (let popsigs = parseIgnoreErr witnesssig in
                        (if class = WitnessV0ScriptHashTy then
                           (case expectedInputs pops (typeOfScript pops) of
                              Inl e \<Rightarrow> Inl e
                            | Inr shInputs \<Rightarrow>
                                Inr \<lparr>PkScriptClass = class,
                                     NumInputs = int (length popsigs) + 1,
                                     ExpectedInputs = addShInputs expected shInputs,
                                     SigOps = GetWitnessSigOpCount cnt pkScript witness\<rparr>)
                         else if class = LocktimeScriptHashTy then
                           (case expectedInputs pops (typeOfScript pops) of
                              Inl e \<Rightarrow> Inl e
                            | Inr shInputs \<Rightarrow>
                                Inr \<lparr>PkScriptClass = class,
                                     NumInputs = int (length popsigs) + 1,
                                     ExpectedInputs = addShInputs expected shInputs,
                                     SigOps = GetLocktimeScriptSigOpCount cnt pkScript witness\<rparr>)
                         else
                           Inr \<lparr>PkScriptClass = class,
                                NumInputs = int (length popsigs) + int (length pops),
                                ExpectedInputs = expected,
                                SigOps = getSigOpCount cnt pkPops True\<rparr>))))))))"

subsection \<open>ExtractPkScriptAddrs\<close>

text \<open>
  The address constructors of \<open>massutil\<close> and the accessor \<open>PubKey\<close> are not among the
  sources; they are parameters of the model. A constructor returns a Go pair: an
  address pointer (\<open>None\<close> for \<open>nil\<close>) and an error (\<open>None\<close> for \<open>nil\<close>). \<open>PubKey\<close> reads
  the key stored in the address it is called on, so the call \<open>addr.PubKey()\<close> on a \<open>nil\<close>
  address is a nil dereference. The chain parameters are fixed inside the constructors.
\<close>

record ('a, 'k) massutil =
  NewAddressWitnessScriptHash :: "byte list \<Rightarrow> 'a option \<times> error option"
  NewAddressLocktimeScriptHash :: "byte list \<Rightarrow> 'a option \<times> error option"
  NewAddressPubKey :: "byte list \<Rightarrow> 'a option \<times> error option"
  PubKey :: "'a \<Rightarrow> 'k"

definition dataBytes :: "parsedOpcode \<Rightarrow> byte list" where
  "dataBytes pop = (case data pop of None \<Rightarrow> [] | Some d \<Rightarrow> d)"

text \<open>One round of the loop over the public keys of a multi-signature script.\<close>

definition pubKeyStep ::
  "('a, 'k) massutil \<Rightarrow> parsedOpcode list \<Rightarrow> nat \<Rightarrow> 'a option list \<times> 'k list \<Rightarrow>
   ('a option list \<times> 'k list) \<times> error option" where
  "pubKeyStep mu pops i acc =
     (case index pops (int i + 1) of
        Inl e \<Rightarrow> (acc, Some e)
      | Inr pop \<Rightarrow>
          (case NewAddressPubKey mu (dataBytes pop) of
             (addr, e) \<Rightarrow>
               (case addr of
                  None \<Rightarrow> (acc, Some RuntimePanic)
                | Some a \<Rightarrow>
                    (let pk = PubKey mu a in
                     if e = None then ((fst acc @ [addr], snd acc @ [pk]), None)
                     else (acc, None)))))"

definition ExtractPkScriptAddrs ::
  "('a, 'k) massutil \<Rightarrow> byte list \<Rightarrow> error + ScriptClass \<times> 'a option list \<times> 'k list \<times> int" where
  "ExtractPkScriptAddrs mu pkScript =
     (case parseScript pkScript of
        Inl e \<Rightarrow> Inl e
      | Inr pops \<Rightarrow>
         (let scriptClass = typeOfScript pops in
          (case scriptClass of
             WitnessV0ScriptHashTy \<Rightarrow>
               (case index pops 1 of
                  Inl e \<Rightarrow> Inl e
                | Inr pop \<Rightarrow>
                    (case NewAddressWitnessScriptHash mu (dataBytes pop) of
                       (addr, e) \<Rightarrow>
                         Inr (scriptClass, (if e = None then [addr] else []), [], 1)))
           | LocktimeScriptHashTy \<Rightarrow>
               (case index pops 4 of
                  Inl e \<Rightarrow> Inl e
                | Inr pop \<Rightarrow>
                    (case NewAddressLocktimeScriptHash mu (dataBytes pop) of
                       (addr, e) \<Rightarrow>
                         Inr (scriptClass, (if e = None then [addr] else []), [], 1)))
           | MultiSigTy \<Rightarrow>
               (case index pops 0 of
                  Inl e \<Rightarrow> Inl e
                | Inr first \<Rightarrow>
                    (case index pops (int (length pops) - 2) of
                       Inl e \<Rightarrow> Inl e
                     | Inr sndLast \<Rightarrow>
                        (let requiredSigs = asSmallInt (opcode first);
                             numPubKeys = asSmallInt (opcode sndLast)
                         in (case forEach (pubKeyStep mu pops) [0 ..< nat numPubKeys] ([], []) of
                               (acc, Some e) \<Rightarrow> Inl e
                             | ((addrs, pks), None) \<Rightarrow>
                                 Inr (scriptClass, addrs, pks, requiredSigs)))))
           | NullDataTy \<Rightarrow> Inr (scriptClass, [], [], 0)
           | NonStandardTy \<Rightarrow> Inr (scriptClass, [], [], 0))))"

subsection \<open>Expected encodings\<close>

text \<open>
  The bytes and the parsed form that the theorems below state for a multi-signature
  script: the opcode of a small integer, the parsed form of a direct push, and the whole
  script \<open>n pk\<^sub>1 \<dots> pk\<^sub>m m OP_CHECKMULTISIG\<close>.
\<close>

definition smallIntOp :: "int \<Rightarrow> byte" where
  "smallIntOp m = (if m = 0 then OP_0 else of_int (80 + m))"

definition pushPop :: "byte list \<Rightarrow> parsedOpcode" where
  "pushPop d = \<lparr>opcode = of_nat (length d), data = Some d\<rparr>"

definition multiSigBytes :: "byte list list \<Rightarrow> int \<Rightarrow> byte list" where
  "multiSigBytes pubkeys nrequired =
     smallIntOp nrequired # concat (map pushData pubkeys) @
     [smallIntOp (int (length pubkeys)), OP_CHECKMULTISIG]"

definition multiSigPops :: "byte list list \<Rightarrow> int \<Rightarrow> parsedOpcode list" where
  "multiSigPops pubkeys nrequired =
     \<lparr>opcode = smallIntOp nrequired, data = None\<rparr> # map pushPop pubkeys @
     [\<lparr>opcode = smallIntOp (int (length pubkeys)), data = None\<rparr>,
      \<lparr>opcode = OP_CHECKMULTISIG, data = None\<rparr>]"

section \<open>Sync peers: netsync/peer.go\<close>

text \<open>
  The ban score \<open>trust.DynamicBanScore\<close> is not among the sources and its transient part
  decays with wall-clock time; its method \<open>Increase\<close> is a parameter of the model, a
  function from the score state and the two increments to the new state and the score
  it reports. Locks and log calls are left out: each operation is modelled as it runs
  alone; the warning band above half the threshold only logs. The transport
  (\<open>BasePeerSet\<close>) is modelled by the list of calls made to it; the error that
  \<open>AddBannedPeer\<close> may return is only logged.
\<close>

definition defaultBanThreshold :: "64 word" where
  "defaultBanThreshold = 100"

record 'b peer =
  Addr :: string
  ID :: string
  banScore :: 'b

datatype transportCall = AddBannedPeer string | StopPeerGracefully string

record 'b peerSet =
  peers :: "string \<rightharpoonup> 'b peer"
  transport :: "transportCall list"

definition peer_addBanScore ::
  "('b \<Rightarrow> 64 word \<Rightarrow> 64 word \<Rightarrow> 'b \<times> 64 word) \<Rightarrow> 'b peer \<Rightarrow> 64 word \<Rightarrow> 64 word \<Rightarrow>
   'b peer \<times> bool" where
  "peer_addBanScore Increase p persistent transient =
     (case Increase (banScore p) persistent transient of
        (bs, score) \<Rightarrow>
          if score > defaultBanThreshold then (p\<lparr>banScore := bs\<rparr>, True)
          else (p\<lparr>banScore := bs\<rparr>, False))"

definition removePeer :: "'b peerSet \<Rightarrow> string \<Rightarrow> 'b peerSet" where
  "removePeer ps peerID =
     ps\<lparr>peers := (peers ps)(peerID := None),
        transport := transport ps @ [StopPeerGracefully peerID]\<rparr>"

definition peerSet_addBanScore ::
  "('b \<Rightarrow> 64 word \<Rightarrow> 64 word \<Rightarrow> 'b \<times> 64 word) \<Rightarrow> 'b peerSet \<Rightarrow> string \<Rightarrow> 64 word \<Rightarrow> 64 word \<Rightarrow>
   'b peerSet" where
  "peerSet_addBanScore Increase ps peerID persistent transient =
     (case peers ps peerID of
        None \<Rightarrow> ps
      | Some p \<Rightarrow>
          (case peer_addBanScore Increase p persistent transient of
             (p', ban) \<Rightarrow>
               (let ps1 = ps\<lparr>peers := (peers ps)(peerID \<mapsto> p')\<rparr> in
                if \<not> ban then ps1
                else removePeer (ps1\<lparr>transport := transport ps1 @ [AddBannedPeer (Addr p')]\<rparr>)
                       peerID)))"

section \<open>Scenarios\<close>

text \<open>Concrete transactions and blocks for the ledger scenarios.\<close>

definition cbIn :: OutPoint where
  "cbIn = OutPoint zeroHash 0xFFFFFFFF"

definition txCb :: MsgTx where
  "txCb = \<lparr>TxSha = 1, TxIn = [cbIn], TxOut = 1\<rparr>"

definition txCb1 :: MsgTx where
  "txCb1 = \<lparr>TxSha = 4, TxIn = [cbIn], TxOut = 1\<rparr>"

text \<open>\<open>txT\<close> spends output 0 of \<open>txCb\<close>; \<open>txEdge\<close> names output 1 of \<open>txCb\<close>, which has one output.\<close>

definition txT :: MsgTx where
  "txT = \<lparr>TxSha = 2, TxIn = [OutPoint 1 0], TxOut = 1\<rparr>"

definition txEdge :: MsgTx where
  "txEdge = \<lparr>TxSha = 3, TxIn = [OutPoint 1 1], TxOut = 1\<rparr>"

definition blkG :: MsgBlock where
  "blkG = \<lparr>Previous = 0, BlockSha = 100, Transactions = [txCb]\<rparr>"

definition blkDup :: MsgBlock where
  "blkDup = \<lparr>Previous = 0, BlockSha = 101, Transactions = [txCb, txT, txT]\<rparr>"

definition blkEdge :: MsgBlock where
  "blkEdge = \<lparr>Previous = 100, BlockSha = 102, Transactions = [txCb1, txEdge]\<rparr>"

definition blkB1 :: MsgBlock where
  "blkB1 = \<lparr>Previous = 100, BlockSha = 103, Transactions = [txCb1, txT]\<rparr>"

definition dbG :: MemDb where
  "dbG = fst (InsertBlock newMemDb blkG)"

text \<open>
  Scenario S4: \<open>blkB1\<close> holds \<open>txT\<close>, which spends the genesis coinbase; \<open>blkB2\<close> holds
  \<open>txT2\<close>, which spends output 0 of \<open>txT\<close>.
\<close>

definition txCb2 :: MsgTx where
  "txCb2 = \<lparr>TxSha = 5, TxIn = [cbIn], TxOut = 1\<rparr>"

definition txT2 :: MsgTx where
  "txT2 = \<lparr>TxSha = 6, TxIn = [OutPoint 2 0], TxOut = 2\<rparr>"

definition blkB2 :: MsgBlock where
  "blkB2 = \<lparr>Previous = 103, BlockSha = 104, Transactions = [txCb2, txT2]\<rparr>"

definition dbB2 :: MemDb where
  "dbB2 = fst (InsertBlock (fst (InsertBlock dbG blkB1)) blkB2)"

text \<open>
  An instance of the ban score for scenario S6: the persistent component alone, a sum
  of the additions that never decays.
\<close>

definition persistentIncrease :: "64 word \<Rightarrow> 64 word \<Rightarrow> 64 word \<Rightarrow> 64 word \<times> 64 word" where
  "persistentIncrease bs persistent transient = (bs + persistent, bs + persistent)"

definition peerP :: "64 word peer" where
  "peerP = \<lparr>Addr = ''10.0.0.1:43480'', ID = ''P'', banScore = 0\<rparr>"

definition setP :: "64 word peerSet" where
  "setP = \<lparr>peers = [''P'' \<mapsto> peerP], transport = []\<rparr>"

text \<open>Stand-ins for the absent collaborators of the script scenarios.\<close>

definition noCounters :: sigOpCounters where
  "noCounters = \<lparr>GetWitnessSigOpCount = (\<lambda>pk w. 0), GetLocktimeScriptSigOpCount = (\<lambda>pk w. 0),
                  getSigOpCount = (\<lambda>pops precise. 0)\<rparr>"

text \<open>
  A stand-in for \<open>massutil\<close> in the scenarios: an address is the byte string it was made
  from; a public key is accepted by its format byte (\<open>0x02\<close> or \<open>0x03\<close> on 33 bytes,
  \<open>0x04\<close> on 65 bytes) and refused with a \<open>nil\<close> address and an error otherwise.
\<close>

definition formatByteKeys :: "(byte list, byte list) massutil" where
  "formatByteKeys =
     \<lparr>NewAddressWitnessScriptHash = (\<lambda>d. if length d = 32 then (Some d, None) else (None, Some ErrAddress)),
      NewAddressLocktimeScriptHash = (\<lambda>d. if length d = 20 then (Some d, None) else (None, Some ErrAddress)),
      NewAddressPubKey = (\<lambda>d. if (length d = 33 \<and> (hd d = 2 \<or> hd d = 3)) \<or> (length d = 65 \<and> hd d = 4)
                              then (Some d, None) else (None, Some ErrAddress)),
      PubKey = (\<lambda>a. a)\<rparr>"

section \<open>Evaluation of the scenarios\<close>

declare fetchLoop.simps [simp del]
declare dropLoop.simps [simp del]

lemmas ledger_eval =
  InsertBlock_def DropAfterBlockBySha_def newMemDb_def buildInFlight_def checkTx_def
  checkInput_def isCoinbaseInput_def isCoinBaseTx_def IsCoinBaseTx_def zeroHash_def int32_def
  insertTx_def spendInput_def setSpent_def unspendInput_def removeTx_def isFullySpent_def
  enumerate_eq_zip dbG_def blkG_def blkDup_def blkEdge_def blkB1_def blkB2_def txCb_def
  txCb1_def txCb2_def txT_def txT2_def txEdge_def cbIn_def

lemma int32_id: "- 2147483648 \<le> n \<Longrightarrow> n < 2147483648 \<Longrightarrow> int32 n = n"
  by (simp add: int32_def)

section \<open>FetchHeightRange\<close>

lemma fetchLoop_all:
  "e = int (length bs) \<Longrightarrow> l = e - 1 \<Longrightarrow> 0 \<le> i \<Longrightarrow> i \<le> e \<Longrightarrow>
   fetchLoop bs i e l acc = Inr (acc @ map BlockSha (drop (nat i) bs))"
proof (induction bs i e l acc rule: fetchLoop.induct)
  case (1 bs i endHeight lastBlockIndex hashList)
  show ?case
  proof (cases "i < endHeight")
    case True
    with 1 have inb: "nat i < length bs" and nl: "\<not> i > lastBlockIndex" by auto
    have "fetchLoop bs i endHeight lastBlockIndex hashList =
          fetchLoop bs (i + 1) endHeight lastBlockIndex (hashList @ [BlockSha (bs ! nat i)])"
      using True inb nl 1(4) by (subst fetchLoop.simps) simp
    also have "\<dots> = Inr ((hashList @ [BlockSha (bs ! nat i)]) @
                        map BlockSha (drop (nat (i + 1)) bs))"
      using 1 True inb nl by (intro "1.IH") auto
    also have "nat (i + 1) = Suc (nat i)" using 1(4) by simp
    finally show ?thesis
      using inb by (simp add: Cons_nth_drop_Suc [symmetric])
  next
    case False
    with 1 have "i = int (length bs)" by simp
    then show ?thesis using False by (subst fetchLoop.simps) simp
  qed
qed

text \<open>
  Claim C7, as the code has it. On an open store (with fewer than \<open>2^31\<close> blocks, so that
  \<open>int32(len(db.blocks))\<close> is the block count) \<open>FetchHeightRange\<close> never reads the caller's
  end height: the end is the block count. It returns an error for every negative start
  and for every start above the block count, and otherwise the hashes of the blocks at
  the heights from start to the block count minus one, in order.
\<close>

theorem FetchHeightRange_clamps:
  assumes "\<not> closed db" and "length (blocks db) < 2147483648"
  shows "FetchHeightRange db startHeight endHeight =
     (if sint startHeight < 0 then Inl ErrStartHeight
      else if int (length (blocks db)) < sint startHeight then Inl ErrEndHeight
      else Inr (map BlockSha (drop (nat (sint startHeight)) (blocks db))))"
proof -
  have e: "int32 (int (length (blocks db))) = int (length (blocks db))"
    using assms(2) by (simp add: int32_id)
  have l: "int32 (int (length (blocks db)) - 1) = int (length (blocks db)) - 1"
    using assms(2) by (simp add: int32_id)
  show ?thesis
    unfolding FetchHeightRange_def Let_def e l
    using assms(1) by (simp add: fetchLoop_all)
qed

theorem FetchHeightRange_clamps_witness:
  "\<not> closed dbG \<and> length (blocks dbG) < 2147483648 \<and>
   FetchHeightRange dbG 0 7 = Inr [100] \<and> FetchHeightRange dbG 0 0 = Inr [100]"
proof -
  have c: "\<not> closed dbG" by (simp add: ledger_eval)
  have b: "blocks dbG = [blkG]" by (simp add: ledger_eval)
  have n: "length (blocks dbG) < 2147483648" by (simp add: b)
  show ?thesis
    using c n FetchHeightRange_clamps [OF c n, of 0 7] FetchHeightRange_clamps [OF c n, of 0 0]
    by (simp add: b blkG_def)
qed

text \<open>
  Claim C7 as stated fails: with start 1 on the fresh store the start is not negative,
  yet the result is an error, not the (empty) list of hashes from height 1 on.
\<close>

theorem FetchHeightRange_start_past_tip:
  "\<not> sint (1 :: 32 word) < 0 \<and> FetchHeightRange newMemDb 1 5 = Inl ErrEndHeight \<and>
   FetchHeightRange newMemDb 1 5 \<noteq> Inr (map BlockSha (drop 1 (blocks newMemDb)))"
  by (simp add: FetchHeightRange_def newMemDb_def int32_def)

section \<open>InsertBlock on its failing inputs\<close>

text \<open>
  Claim C2 at the boundary. The store \<open>dbG\<close> holds \<open>txCb\<close> with one output; the input of
  \<open>txEdge\<close> names output 1 of it, which is not in flight in \<open>blkEdge\<close>. The validation loop
  lets the input pass (\<open>1 > 1\<close> is false), the block is appended, and the spend loop
  panics on \<open>spentBuf[1]\<close>: no \<open>ErrTxShaMissing\<close>, and no flag inside the bounds.
\<close>

theorem InsertBlock_index_eq_len_panics:
  "length (spentBuf (last (the (txns dbG 1)))) = 1 \<and>
   checkInput dbG (buildInFlight (Transactions blkEdge)) 1 txEdge (OutPoint 1 1) = None \<and>
   snd (InsertBlock dbG blkEdge) = Inl RuntimePanic \<and>
   blocks (fst (InsertBlock dbG blkEdge)) = [blkG, blkEdge]"
  by (simp add: ledger_eval)

text \<open>
  The general form of the boundary: an input that is not in flight, whose origin is in
  the store and whose index equals the number of outputs of the most recent version,
  passes the validation loop, and its spend panics.
\<close>

lemma checkInput_index_eq_len:
  assumes "\<not> isCoinbaseInput prevOut" "isCoinBaseTx tx = Inr False"
    and "txInFlight (Hash prevOut) = None"
    and "txns db (Hash prevOut) = Some originTxns" "originTxns \<noteq> []"
    and "unat (Index prevOut) = length (spentBuf (last originTxns))"
  shows "checkInput db txInFlight i tx prevOut = None \<and>
         spendInput tx prevOut db = (db, Some RuntimePanic)"
proof -
  have "(of_nat (length (spentBuf (last originTxns))) :: 32 word) = Index prevOut"
    using assms(6) [symmetric] by simp
  then have "\<not> Index prevOut > (of_nat (length (spentBuf (last originTxns))) :: 32 word)"
    by simp
  then show ?thesis
    using assms by (simp add: checkInput_def spendInput_def setSpent_def)
qed

text \<open>
  On either side of the boundary the code does what the claim says: an index above the
  number of outputs is refused with \<open>ErrTxShaMissing\<close>, and an index below it has its
  flag set inside the vector.
\<close>

lemma checkInput_index_gt_len:
  assumes "\<not> isCoinbaseInput prevOut" "isCoinBaseTx tx = Inr False"
    and "txInFlight (Hash prevOut) = None"
    and "txns db (Hash prevOut) = Some originTxns" "originTxns \<noteq> []"
    and "length (spentBuf (last originTxns)) < unat (Index prevOut)"
  shows "checkInput db txInFlight i tx prevOut = Some ErrTxShaMissing"
proof -
  have "unat (Index prevOut) < 2 ^ LENGTH(32)" by (rule unsigned_less)
  with assms(6) have "length (spentBuf (last originTxns)) < 2 ^ LENGTH(32)" by simp
  then have "unat (of_nat (length (spentBuf (last originTxns))) :: 32 word) =
             length (spentBuf (last originTxns))"
    by (simp add: unat_of_nat)
  with assms(6) have "Index prevOut > (of_nat (length (spentBuf (last originTxns))) :: 32 word)"
    by (simp add: word_less_nat_alt)
  then show ?thesis
    using assms(1-5) by (simp add: checkInput_def)
qed

lemma spendInput_index_lt_len:
  assumes "\<not> isCoinbaseInput prevOut" "isCoinBaseTx tx = Inr False"
    and "txns db (Hash prevOut) = Some originTxns" "originTxns \<noteq> []"
    and "unat (Index prevOut) < length (spentBuf (last originTxns))"
  shows "spendInput tx prevOut db =
         (db\<lparr>txns := (txns db)(Hash prevOut \<mapsto> butlast originTxns @
             [(last originTxns)\<lparr>spentBuf :=
                 (spentBuf (last originTxns))[unat (Index prevOut) := True]\<rparr>])\<rparr>, None)"
  using assms by (simp add: spendInput_def setSpent_def)

text \<open>
  What does hold of claim C3: every error that \<open>InsertBlock\<close> returns, as opposed to a
  panic, leaves the store as it was.
\<close>

lemma forEach_error:
  assumes "forEach f xs s = (s', Some e)"
    and "\<And>x s s' e. f x s = (s', Some e) \<Longrightarrow> P e"
  shows "P e"
  using assms(1)
proof (induction xs arbitrary: s)
  case Nil
  then show ?case by simp
next
  case (Cons x xs)
  show ?case
  proof (cases "f x s")
    case (Pair s1 r)
    show ?thesis
    proof (cases r)
      case None
      with Pair Cons.prems have "forEach f xs s1 = (s', Some e)" by simp
      then show ?thesis by (rule Cons.IH)
    next
      case (Some e1)
      with Pair Cons.prems have "e1 = e" by simp
      with Pair Some show ?thesis using assms(2) by blast
    qed
  qed
qed

lemma spendInput_error: "spendInput tx prevOut db = (db', Some e) \<Longrightarrow> e = RuntimePanic"
  by (auto simp: spendInput_def setSpent_def isCoinBaseTx_def
      split: if_splits sum.splits bool.splits option.splits list.splits)

lemma insertTx_error: "insertTx newHeight itx db = (db', Some e) \<Longrightarrow> e = RuntimePanic"
proof -
  assume a: "insertTx newHeight itx db = (db', Some e)"
  obtain i tx where itx: "itx = (i, tx)" by (cases itx)
  show ?thesis
  proof (cases "isCoinBaseTx tx")
    case (Inl e1)
    then have "e1 = RuntimePanic" by (auto simp: isCoinBaseTx_def split: list.splits if_splits)
    with a Inl itx show ?thesis by (simp add: insertTx_def Let_def)
  next
    case (Inr c)
    show ?thesis
    proof (cases c)
      case True
      with a Inr itx show ?thesis by (simp add: insertTx_def Let_def)
    next
      case False
      with a Inr itx obtain db1 where
        "forEach (spendInput tx) (TxIn tx) db1 = (db', Some e)"
        by (simp add: insertTx_def Let_def)
      then show ?thesis by (rule forEach_error) (rule spendInput_error)
    qed
  qed
qed

lemma InsertBlock_error_unchanged:
  assumes "InsertBlock db block = (db', Inl e)" "e \<noteq> RuntimePanic"
  shows "db' = db"
proof (rule ccontr)
  assume ne: "db' \<noteq> db"
  with assms(1) obtain db1 nh where
    "forEach (insertTx nh) (enumerate 0 (Transactions block)) db1 = (db', Some e)"
    by (auto simp: InsertBlock_def Let_def split: if_splits option.splits prod.splits)
  then have "e = RuntimePanic" by (rule forEach_error) (rule insertTx_error)
  with assms(2) show False by simp
qed

text \<open>
  Claim C3 on a block with two transactions of the same hash. \<open>blkDup\<close> holds \<open>txT\<close>
  twice; the in-flight map keeps the index of the last copy, so the test
  \<open>inFlightIndex < i\<close> is false at both copies. The insert succeeds at height 0 and the
  store holds two entries for the hash.
\<close>

theorem InsertBlock_duplicate_accepted:
  "TxSha (Transactions blkDup ! 1) = TxSha (Transactions blkDup ! 2) \<and>
   snd (InsertBlock newMemDb blkDup) = Inr 0 \<and>
   blocks (fst (InsertBlock newMemDb blkDup)) = [blkDup] \<and>
   map_option length (txns (fst (InsertBlock newMemDb blkDup)) 2) = Some 2"
  by (simp add: ledger_eval)

section \<open>Ban score\<close>

lemmas peer_eval = peer_addBanScore_def peerSet_addBanScore_def removePeer_def
  defaultBanThreshold_def persistentIncrease_def peerP_def setP_def

text \<open>
  Claim C9. For every peer and every pair of increments, \<open>addBanScore\<close> of the peer
  returns true exactly when the score that \<open>Increase\<close> reports exceeds
  \<open>defaultBanThreshold = 100\<close>. When it returns true for a registered peer, the peer set
  calls the transport's \<open>AddBannedPeer\<close> with the peer's address and then removes the
  peer (which stops it gracefully); when it returns false the peer stays and the
  transport is not called.
\<close>

theorem addBanScore_threshold:
  "defaultBanThreshold = 100 \<and>
   (snd (peer_addBanScore Increase p persistent transient) \<longleftrightarrow>
      snd (Increase (banScore p) persistent transient) > 100) \<and>
   (peers ps peerID = Some p \<longrightarrow> snd (peer_addBanScore Increase p persistent transient) \<longrightarrow>
      peers (peerSet_addBanScore Increase ps peerID persistent transient) peerID = None \<and>
      transport (peerSet_addBanScore Increase ps peerID persistent transient) =
        transport ps @ [AddBannedPeer (Addr p), StopPeerGracefully peerID]) \<and>
   (peers ps peerID = Some p \<longrightarrow> \<not> snd (peer_addBanScore Increase p persistent transient) \<longrightarrow>
      peers (peerSet_addBanScore Increase ps peerID persistent transient) peerID =
        Some (fst (peer_addBanScore Increase p persistent transient)) \<and>
      transport (peerSet_addBanScore Increase ps peerID persistent transient) = transport ps)"
  by (auto simp: peer_addBanScore_def peerSet_addBanScore_def removePeer_def
      defaultBanThreshold_def split: prod.splits)

text \<open>Scenario S6: 60 points do not ban peer P, 50 more (score 110) do.\<close>

theorem addBanScore_threshold_witness:
  "peers setP ''P'' = Some peerP \<and>
   \<not> snd (peer_addBanScore persistentIncrease peerP 60 0) \<and>
   peers (peerSet_addBanScore persistentIncrease setP ''P'' 60 0) ''P'' =
     Some (peerP\<lparr>banScore := 60\<rparr>) \<and>
   snd (peer_addBanScore persistentIncrease (peerP\<lparr>banScore := 60\<rparr>) 50 0) \<and>
   peers (peerSet_addBanScore persistentIncrease
            (peerSet_addBanScore persistentIncrease setP ''P'' 60 0) ''P'' 50 0) ''P'' = None \<and>
   transport (peerSet_addBanScore persistentIncrease
            (peerSet_addBanScore persistentIncrease setP ''P'' 60 0) ''P'' 50 0) =
     [AddBannedPeer ''10.0.0.1:43480'', StopPeerGracefully ''P'']"
proof -
  let ?ps1 = "peerSet_addBanScore persistentIncrease setP ''P'' 60 0"
  have p0: "peers setP ''P'' = Some peerP" by (simp add: setP_def)
  have n1: "\<not> snd (peer_addBanScore persistentIncrease peerP 60 0)"
    by (simp add: peer_eval)
  have f1: "fst (peer_addBanScore persistentIncrease peerP 60 0) = peerP\<lparr>banScore := 60\<rparr>"
    by (simp add: peer_eval)
  from addBanScore_threshold [of persistentIncrease peerP 60 0 setP "''P''"] p0 n1 f1
  have s1: "peers ?ps1 ''P'' = Some (peerP\<lparr>banScore := 60\<rparr>)" and t1: "transport ?ps1 = []"
    by (simp_all add: setP_def)
  have b2: "snd (peer_addBanScore persistentIncrease (peerP\<lparr>banScore := 60\<rparr>) 50 0)"
    by (simp add: peer_eval)
  from addBanScore_threshold
         [of persistentIncrease "peerP\<lparr>banScore := 60\<rparr>" 50 0 ?ps1 "''P''"] s1 b2 t1
  have "peers (peerSet_addBanScore persistentIncrease ?ps1 ''P'' 50 0) ''P'' = None"
    and "transport (peerSet_addBanScore persistentIncrease ?ps1 ''P'' 50 0) =
         [AddBannedPeer ''10.0.0.1:43480'', StopPeerGracefully ''P'']"
    by (simp_all add: peerP_def)
  with p0 n1 s1 b2 show ?thesis by simp
qed

section \<open>Classification\<close>

lemmas opcode_defs = OP_0_def OP_DATA_8_def OP_DATA_20_def OP_DATA_32_def OP_DATA_75_def
  OP_PUSHDATA1_def OP_PUSHDATA2_def OP_PUSHDATA4_def OP_1NEGATE_def OP_1_def OP_16_def
  OP_RETURN_def OP_DROP_def OP_EQUAL_def OP_HASH160_def OP_CHECKMULTISIG_def
  OP_CHECKSEQUENCEVERIFY_def

lemmas script_eval = opcode_defs consPop_def isSmallInt_def asSmallInt_def dataLen_def
  isMultiSig_def isNullData_def isWitnessScriptHash_def isLocktimeScriptHash_def
  MaxDataCarrierSize_def

lemmas builder_eval = NewScriptBuilder_def AddOp_def AddData_def AddInt64_def pushData_def
  Script_def maxScriptSize_def MaxScriptElementSize_def

text \<open>
  Claim C10. \<open>GetScriptClass\<close> is a function of the script bytes alone, so equal inputs
  give equal classes; a script that does not parse is \<open>NonStandardTy\<close>; and the class of
  a parsed script is decided by the predicates in the order multi-signature, null
  data, witness script hash, locktime script hash, the first that holds winning, and
  \<open>NonStandardTy\<close> when none holds.
\<close>

theorem GetScriptClass_precedence:
  "(s = s' \<longrightarrow> GetScriptClass s = GetScriptClass s') \<and>
   (parseScript s = Inl e \<longrightarrow> GetScriptClass s = NonStandardTy) \<and>
   (parseScript s = Inr pops \<longrightarrow>
      GetScriptClass s = typeOfScript pops \<and>
      (isMultiSig pops \<longrightarrow> typeOfScript pops = MultiSigTy) \<and>
      (\<not> isMultiSig pops \<and> isNullData pops \<longrightarrow> typeOfScript pops = NullDataTy) \<and>
      (\<not> isMultiSig pops \<and> \<not> isNullData pops \<and> isWitnessScriptHash pops \<longrightarrow>
         typeOfScript pops = WitnessV0ScriptHashTy) \<and>
      (\<not> isMultiSig pops \<and> \<not> isNullData pops \<and> \<not> isWitnessScriptHash pops \<and>
       isLocktimeScriptHash pops \<longrightarrow> typeOfScript pops = LocktimeScriptHashTy) \<and>
      (\<not> isMultiSig pops \<and> \<not> isNullData pops \<and> \<not> isWitnessScriptHash pops \<and>
       \<not> isLocktimeScriptHash pops \<longrightarrow> typeOfScript pops = NonStandardTy))"
  by (simp add: GetScriptClass_def typeOfScript_def)

text \<open>
  Scenario S2 (\<open>0x6a\<close> is null data) and a script that does not parse (a \<open>PUSHDATA1\<close>
  without its length byte).
\<close>

theorem GetScriptClass_precedence_witness:
  "parseScript [0x4c] = Inl ErrParse \<and> GetScriptClass [0x4c] = NonStandardTy \<and>
   parseScript [0x6a] = Inr [\<lparr>opcode = 0x6a, data = None\<rparr>] \<and>
   \<not> isMultiSig [\<lparr>opcode = 0x6a, data = None\<rparr>] \<and>
   isNullData [\<lparr>opcode = 0x6a, data = None\<rparr>] \<and>
   GetScriptClass [0x6a] = NullDataTy"
proof -
  have a: "parseScript [0x4c] = Inl ErrParse" by (simp add: script_eval)
  have b: "parseScript [0x6a] = Inr [\<lparr>opcode = 0x6a, data = None\<rparr>]" by (simp add: script_eval)
  have c: "\<not> isMultiSig [\<lparr>opcode = 0x6a, data = None\<rparr>]" by (simp add: script_eval)
  have d: "isNullData [\<lparr>opcode = 0x6a, data = None\<rparr>]" by (simp add: script_eval)
  show ?thesis
    using a b c d
      GetScriptClass_precedence [of "[0x4c]" "[0x4c]" ErrParse "[]"]
      GetScriptClass_precedence [of "[0x6a]" "[0x6a]" ErrParse "[\<lparr>opcode = 0x6a, data = None\<rparr>]"]
    by simp
qed

section \<open>Pay to witness script hash\<close>

lemma p2wsh_script:
  "length h = 32 \<Longrightarrow> payToWitnessScriptHashScript h = Inr (0x00 # 0x20 # h)"
  by (simp add: payToWitnessScriptHashScript_def builder_eval opcode_defs)

lemma p2wsh_parse:
  "length h = 32 \<Longrightarrow>
   parseScript (0x00 # 0x20 # h) =
     Inr [\<lparr>opcode = 0x00, data = None\<rparr>, \<lparr>opcode = 0x20, data = Some h\<rparr>]"
  by (simp add: script_eval)

text \<open>
  Claim C4, as the code has it. For every 32-byte value \<open>h\<close> the script built by
  \<open>payToWitnessScriptHashScript\<close> is \<open>OP_0 0x20 h\<close>, it classifies as
  \<open>WitnessV0ScriptHashTy\<close>, and \<open>PushedData\<close> on it returns the two-element list of the
  empty push of \<open>OP_0\<close> followed by \<open>h\<close>.
\<close>

theorem p2wsh_roundtrip:
  assumes "length h = 32"
  shows "payToWitnessScriptHashScript h = Inr (OP_0 # OP_DATA_32 # h) \<and>
         GetScriptClass (OP_0 # OP_DATA_32 # h) = WitnessV0ScriptHashTy \<and>
         PushedData (OP_0 # OP_DATA_32 # h) = Inr [[], h]"
  using assms
  by (simp add: p2wsh_script p2wsh_parse GetScriptClass_def typeOfScript_def PushedData_def
      script_eval)

text \<open>Scenario S3: the hash of 32 bytes \<open>0x11\<close>.\<close>

theorem p2wsh_roundtrip_witness:
  "length (replicate 32 (0x11 :: byte)) = 32 \<and>
   payToWitnessScriptHashScript (replicate 32 0x11) = Inr (0x00 # 0x20 # replicate 32 0x11) \<and>
   GetScriptClass (0x00 # 0x20 # replicate 32 0x11) = WitnessV0ScriptHashTy \<and>
   PushedData (0x00 # 0x20 # replicate 32 0x11) = Inr [[], replicate 32 0x11]"
  using p2wsh_roundtrip [of "replicate 32 0x11"] by (simp add: opcode_defs)

text \<open>
  Claim C4 as stated fails: on the script built for the hash of scenario S3,
  \<open>PushedData\<close> does not return the one-element list of the hash.
\<close>

theorem p2wsh_pushed_data_two_elements:
  "payToWitnessScriptHashScript (replicate 32 0x11) = Inr (0x00 # 0x20 # replicate 32 0x11) \<and>
   PushedData (0x00 # 0x20 # replicate 32 0x11) \<noteq> Inr [replicate 32 0x11]"
  by (simp add: p2wsh_script PushedData_def script_eval)

section \<open>CalcScriptInfo\<close>

lemma index_last: "xs \<noteq> [] \<Longrightarrow> index xs (int (length xs) - 1) = Inr (last xs)"
  by (cases xs rule: rev_cases) (simp_all add: index_def nat_diff_distrib)

lemma index_first: "xs \<noteq> [] \<Longrightarrow> index xs 0 = Inr (hd xs)"
  by (cases xs) (simp_all add: index_def)

lemma index_empty: "index [] i = Inl RuntimePanic"
  by (simp add: index_def)

lemma expectedInputs_total: "\<exists>n. expectedInputs pops (typeOfScript pops) = Inr n"
proof (cases "typeOfScript pops")
  case MultiSigTy
  then have "isMultiSig pops" by (simp add: typeOfScript_def split: if_splits)
  then have "pops \<noteq> []" by (auto simp: isMultiSig_def Let_def split: if_splits)
  then show ?thesis using MultiSigTy by (simp add: expectedInputs_def index_first)
qed (simp_all add: expectedInputs_def)

text \<open>
  Claim C6. For a pk script that parses, \<open>CalcScriptInfo\<close> on a non-empty witness reads
  the last and the first witness element inside the bounds and returns a \<open>ScriptInfo\<close>;
  on the empty witness the read of the last element, at index \<open>-1\<close>, is out of bounds
  and the function panics.
\<close>

theorem CalcScriptInfo_witness_bounds:
  assumes "parseScript pkScript = Inr pkPops"
  shows "(witness \<noteq> [] \<longrightarrow>
            index witness (int (length witness) - 1) = Inr (last witness) \<and>
            index witness 0 = Inr (hd witness) \<and>
            (\<exists>si. CalcScriptInfo cnt pkScript witness = Inr si)) \<and>
         (witness = [] \<longrightarrow>
            index witness (int (length witness) - 1) = Inl RuntimePanic \<and>
            CalcScriptInfo cnt pkScript witness = Inl RuntimePanic)"
proof -
  obtain n where n: "expectedInputs pkPops (typeOfScript pkPops) = Inr n"
    using expectedInputs_total by blast
  have "\<exists>si. CalcScriptInfo cnt pkScript witness = Inr si" if w: "witness \<noteq> []"
  proof -
    obtain m where m: "expectedInputs (parseIgnoreErr (last witness))
                         (typeOfScript (parseIgnoreErr (last witness))) = Inr m"
      using expectedInputs_total by blast
    show ?thesis
      by (simp add: CalcScriptInfo_def assms n m index_last [OF w] index_first [OF w] Let_def)
  qed
  moreover have "CalcScriptInfo cnt pkScript [] = Inl RuntimePanic"
    by (simp add: CalcScriptInfo_def assms n index_empty Let_def)
  ultimately show ?thesis
    by (auto simp: index_last index_first index_empty)
qed

theorem CalcScriptInfo_witness_bounds_witness:
  "parseScript [0x6a] = Inr [\<lparr>opcode = 0x6a, data = None\<rparr>] \<and>
   (\<exists>si. CalcScriptInfo noCounters [0x6a] [[0x51], [0x52]] = Inr si) \<and>
   CalcScriptInfo noCounters [0x6a] [] = Inl RuntimePanic"
proof -
  have p: "parseScript [0x6a] = Inr [\<lparr>opcode = 0x6a, data = None\<rparr>]"
    by (simp add: script_eval)
  show ?thesis
    using p CalcScriptInfo_witness_bounds [OF p, of "[[0x51], [0x52]]" noCounters]
      CalcScriptInfo_witness_bounds [OF p, of "[]" noCounters]
    by simp
qed

section \<open>Multi-signature scripts\<close>

lemma unat_smallIntOp:
  assumes "1 \<le> m" "m \<le> 16"
  shows "unat (smallIntOp m) = nat (80 + m)"
proof -
  from assms have "0 \<le> m" by simp
  then obtain k where k: "m = int k" by (rule nonneg_int_cases)
  have "smallIntOp m = (of_nat (80 + k) :: byte)" using assms k by (simp add: smallIntOp_def)
  moreover have "unat (of_nat (80 + k) :: byte) = (80 + k) mod 2 ^ LENGTH(8)"
    by (rule unat_of_nat)
  moreover have "(80 + k) mod 2 ^ LENGTH(8) = 80 + k" using assms k by simp
  ultimately show ?thesis using k by simp
qed

lemma smallIntOp_neq_0: "1 \<le> m \<Longrightarrow> m \<le> 16 \<Longrightarrow> smallIntOp m \<noteq> 0"
proof
  assume a: "1 \<le> m" "m \<le> 16" and z: "smallIntOp m = 0"
  from unat_smallIntOp [OF a] z show False using a by simp
qed

lemma isSmallInt_smallIntOp: "0 \<le> m \<Longrightarrow> m \<le> 16 \<Longrightarrow> isSmallInt (smallIntOp m)"
proof (cases "m = 0")
  case True then show ?thesis by (simp add: smallIntOp_def isSmallInt_def)
next
  case False
  assume "0 \<le> m" "m \<le> 16"
  with False have u: "unat (smallIntOp m) = nat (80 + m)" by (simp add: unat_smallIntOp)
  show ?thesis using \<open>0 \<le> m\<close> \<open>m \<le> 16\<close> False
    by (auto simp: isSmallInt_def word_le_nat_alt u OP_1_def OP_16_def)
qed

lemma asSmallInt_smallIntOp: "0 \<le> m \<Longrightarrow> m \<le> 16 \<Longrightarrow> asSmallInt (smallIntOp m) = m"
proof (cases "m = 0")
  case True then show ?thesis by (simp add: smallIntOp_def asSmallInt_def)
next
  case False
  assume a: "0 \<le> m" "m \<le> 16"
  with False have m1: "1 \<le> m" by simp
  have u: "unat (smallIntOp m) = nat (80 + m)" using m1 a by (simp add: unat_smallIntOp)
  have ne: "smallIntOp m \<noteq> OP_0" using smallIntOp_neq_0 [OF m1 a(2)] by (simp add: OP_0_def)
  have "(80 :: byte) \<le> smallIntOp m" using u m1 by (simp add: word_le_nat_alt)
  then have "unat (smallIntOp m - 80) = unat (smallIntOp m) - unat (80 :: byte)"
    by (rule unat_sub)
  then show ?thesis using a m1 u ne by (simp add: asSmallInt_def OP_1_def)
qed

lemma parse_smallIntOp:
  assumes "0 \<le> m" "m \<le> 16"
  shows "parseScript (smallIntOp m # rest) =
         consPop \<lparr>opcode = smallIntOp m, data = None\<rparr> (parseScript rest)"
proof (cases "m = 0")
  case True then show ?thesis by (simp add: smallIntOp_def opcode_defs)
next
  case False
  with assms have m1: "1 \<le> m" by simp
  have u: "unat (smallIntOp m) = nat (80 + m)" using m1 assms by (simp add: unat_smallIntOp)
  have "\<not> smallIntOp m \<le> OP_DATA_75" using u m1 by (simp add: word_le_nat_alt OP_DATA_75_def)
  moreover have "smallIntOp m \<noteq> OP_PUSHDATA1" "smallIntOp m \<noteq> OP_PUSHDATA2"
    "smallIntOp m \<noteq> OP_PUSHDATA4"
    using u m1 by (auto simp: opcode_defs)
  ultimately show ?thesis by simp
qed

lemma parse_checkmultisig:
  "parseScript [OP_CHECKMULTISIG] = Inr [\<lparr>opcode = OP_CHECKMULTISIG, data = None\<rparr>]"
  by (simp add: script_eval)

lemma pushData_key: "length d = 33 \<or> length d = 65 \<Longrightarrow> pushData d = of_nat (length d) # d"
  by (auto simp: pushData_def OP_PUSHDATA1_def)

lemma parse_direct_push:
  "1 \<le> b \<Longrightarrow> b \<le> OP_DATA_75 \<Longrightarrow> unat b = length d \<Longrightarrow>
   parseScript (b # d @ rest) = consPop \<lparr>opcode = b, data = Some d\<rparr> (parseScript rest)"
  by simp

lemma parse_key:
  assumes "length d = 33 \<or> length d = 65"
  shows "parseScript (of_nat (length d) # d @ rest) = consPop (pushPop d) (parseScript rest)"
proof -
  have "1 \<le> (of_nat (length d) :: byte) \<and> (of_nat (length d) :: byte) \<le> OP_DATA_75 \<and>
        unat (of_nat (length d) :: byte) = length d"
    using assms by (rule disjE) (simp_all add: OP_DATA_75_def)
  then show ?thesis
    unfolding pushPop_def by (intro parse_direct_push) simp_all
qed

lemma parse_keys:
  assumes "\<forall>d \<in> set ds. length d = 33 \<or> length d = 65"
    and "parseScript rest = Inr pops"
  shows "parseScript (concat (map pushData ds) @ rest) = Inr (map pushPop ds @ pops)"
  using assms(1)
proof (induction ds)
  case Nil
  then show ?case by (simp add: assms(2))
next
  case (Cons d ds)
  then have d: "length d = 33 \<or> length d = 65" by simp
  have "parseScript (concat (map pushData (d # ds)) @ rest) =
        parseScript (of_nat (length d) # d @ (concat (map pushData ds) @ rest))"
    by (simp add: pushData_key [OF d])
  also have "\<dots> = consPop (pushPop d) (parseScript (concat (map pushData ds) @ rest))"
    by (rule parse_key [OF d])
  finally show ?case using Cons by (simp add: consPop_def)
qed

lemma AddInt64_small:
  assumes "err b = None" "length (script b) < maxScriptSize" "0 \<le> m" "m \<le> 16"
  shows "AddInt64 m b = b\<lparr>script := script b @ [smallIntOp m]\<rparr>"
  using assms by (auto simp: AddInt64_def smallIntOp_def OP_1_def)

lemma length_pushData_key: "length d = 33 \<or> length d = 65 \<Longrightarrow> length (pushData d) \<le> 66"
  by (auto simp: pushData_key)

lemma AddData_key:
  assumes "err b = None" "length d = 33 \<or> length d = 65" "length (script b) + 66 \<le> maxScriptSize"
  shows "AddData d b = b\<lparr>script := script b @ pushData d\<rparr>"
proof -
  have "length (pushData d) \<le> 66" by (rule length_pushData_key [OF assms(2)])
  moreover have "length d \<le> MaxScriptElementSize"
    using assms(2) by (auto simp: MaxScriptElementSize_def)
  ultimately show ?thesis using assms(1,3) by (simp add: AddData_def)
qed

lemma fold_AddData_keys:
  assumes "\<forall>d \<in> set ds. length d = 33 \<or> length d = 65"
    and "err b = None"
    and "length (script b) + 66 * length ds \<le> maxScriptSize"
  shows "fold AddData ds b = b\<lparr>script := script b @ concat (map pushData ds)\<rparr>"
  using assms
proof (induction ds arbitrary: b)
  case Nil
  then show ?case by simp
next
  case (Cons d ds)
  then have d: "length d = 33 \<or> length d = 65" by simp
  have step: "AddData d b = b\<lparr>script := script b @ pushData d\<rparr>"
    using Cons.prems by (intro AddData_key d) simp_all
  have "length (pushData d) \<le> 66" by (rule length_pushData_key [OF d])
  then have "fold AddData ds (AddData d b) =
        (AddData d b)\<lparr>script := script (AddData d b) @ concat (map pushData ds)\<rparr>"
    using Cons.prems by (intro Cons.IH) (simp_all add: step)
  then show ?case by (simp add: step)
qed

lemma length_concat_pushData:
  "\<forall>d \<in> set ds. length d = 33 \<or> length d = 65 \<Longrightarrow>
   length (concat (map pushData ds)) \<le> 66 * length ds"
proof (induction ds)
  case Nil
  then show ?case by simp
next
  case (Cons d ds)
  then have "length (pushData d) \<le> 66" by (intro length_pushData_key) simp
  with Cons show ?case by simp
qed

lemma NewScriptBuilder_fields: "err NewScriptBuilder = None" "script NewScriptBuilder = []"
  by (simp_all add: NewScriptBuilder_def)

lemma MultiSigScript_bytes:
  assumes "length pubkeys \<le> 16" "0 \<le> nrequired" "nrequired \<le> int (length pubkeys)"
    and "\<forall>pk \<in> set pubkeys. length pk = 33 \<or> length pk = 65"
  shows "MultiSigScript pubkeys nrequired = Inr (multiSigBytes pubkeys nrequired)"
proof -
  let ?b1 = "NewScriptBuilder\<lparr>script := script NewScriptBuilder @ [smallIntOp nrequired]\<rparr>"
  let ?b2 = "?b1\<lparr>script := script ?b1 @ concat (map pushData pubkeys)\<rparr>"
  let ?b3 = "?b2\<lparr>script := script ?b2 @ [smallIntOp (int (length pubkeys))]\<rparr>"
  have n16: "nrequired \<le> 16" using assms(1,3) by simp
  have len: "length (concat (map pushData pubkeys)) \<le> 66 * length pubkeys"
    by (rule length_concat_pushData [OF assms(4)])
  have 1: "AddInt64 nrequired NewScriptBuilder = ?b1"
    using assms(2) n16
    by (intro AddInt64_small) (simp_all add: NewScriptBuilder_fields maxScriptSize_def)
  have 2: "fold AddData pubkeys ?b1 = ?b2"
    using assms(1,4)
    by (intro fold_AddData_keys) (simp_all add: NewScriptBuilder_fields maxScriptSize_def)
  have 3: "AddInt64 (int (length pubkeys)) ?b2 = ?b3"
    using assms(1) len
    by (intro AddInt64_small) (simp_all add: NewScriptBuilder_fields maxScriptSize_def)
  have 4: "AddOp OP_CHECKMULTISIG ?b3 = ?b3\<lparr>script := script ?b3 @ [OP_CHECKMULTISIG]\<rparr>"
    using assms(1) len by (simp add: AddOp_def NewScriptBuilder_fields maxScriptSize_def)
  have "MultiSigScript pubkeys nrequired =
        Script (?b3\<lparr>script := script ?b3 @ [OP_CHECKMULTISIG]\<rparr>)"
    using assms(3) unfolding MultiSigScript_def 1 2 3 4 by simp
  then show ?thesis
    by (simp add: Script_def NewScriptBuilder_fields multiSigBytes_def)
qed

lemma parse_multiSigBytes:
  assumes "length pubkeys \<le> 16" "0 \<le> nrequired" "nrequired \<le> int (length pubkeys)"
    and "\<forall>pk \<in> set pubkeys. length pk = 33 \<or> length pk = 65"
  shows "parseScript (multiSigBytes pubkeys nrequired) = Inr (multiSigPops pubkeys nrequired)"
proof -
  have n16: "nrequired \<le> 16" using assms(1,3) by simp
  have "parseScript (smallIntOp (int (length pubkeys)) # [OP_CHECKMULTISIG]) =
        consPop \<lparr>opcode = smallIntOp (int (length pubkeys)), data = None\<rparr>
          (parseScript [OP_CHECKMULTISIG])"
    using assms(1) by (intro parse_smallIntOp) simp_all
  then have tail: "parseScript [smallIntOp (int (length pubkeys)), OP_CHECKMULTISIG] =
        Inr [\<lparr>opcode = smallIntOp (int (length pubkeys)), data = None\<rparr>,
             \<lparr>opcode = OP_CHECKMULTISIG, data = None\<rparr>]"
    by (simp only: parse_checkmultisig consPop_def sum.case)
  have "parseScript (multiSigBytes pubkeys nrequired) =
        consPop \<lparr>opcode = smallIntOp nrequired, data = None\<rparr>
          (parseScript (concat (map pushData pubkeys) @
             [smallIntOp (int (length pubkeys)), OP_CHECKMULTISIG]))"
    unfolding multiSigBytes_def using assms(2) n16 by (rule parse_smallIntOp)
  then show ?thesis
    by (simp add: parse_keys [OF assms(4) tail] consPop_def multiSigPops_def)
qed

lemma dataLen_pushPop: "dataLen (pushPop d) = length d"
  by (simp add: dataLen_def pushPop_def)

lemma multiSigPops_nth:
  "length (multiSigPops pubkeys nrequired) = length pubkeys + 3"
  "opcode (multiSigPops pubkeys nrequired ! 0) = smallIntOp nrequired"
  "opcode (multiSigPops pubkeys nrequired ! (length (multiSigPops pubkeys nrequired) - 2)) =
     smallIntOp (int (length pubkeys))"
  "opcode (multiSigPops pubkeys nrequired ! (length (multiSigPops pubkeys nrequired) - 1)) =
     OP_CHECKMULTISIG"
  "take (length (multiSigPops pubkeys nrequired) - 2 - 1) (drop 1 (multiSigPops pubkeys nrequired)) =
     map pushPop pubkeys"
  by (simp_all add: multiSigPops_def nth_append)

lemma isMultiSig_multiSigPops:
  assumes "1 \<le> length pubkeys" "length pubkeys \<le> 16" "0 \<le> nrequired"
    "nrequired \<le> int (length pubkeys)"
    and "\<forall>pk \<in> set pubkeys. length pk = 33 \<or> length pk = 65"
  shows "isMultiSig (multiSigPops pubkeys nrequired)"
proof -
  let ?k = "length pubkeys"
  let ?pops = "multiSigPops pubkeys nrequired"
  have n16: "nrequired \<le> 16" using assms(2,4) by simp
  have keys: "list_all (\<lambda>pop. \<not> (dataLen pop \<noteq> 33 \<and> dataLen pop \<noteq> 65)) (map pushPop pubkeys)"
    using assms(5) by (auto simp: list_all_iff dataLen_pushPop)
  have s0: "isSmallInt (smallIntOp nrequired)" using assms(3) n16 by (rule isSmallInt_smallIntOp)
  have sa: "isSmallInt (smallIntOp (int ?k))" using assms(2) by (intro isSmallInt_smallIntOp) simp_all
  have va: "asSmallInt (smallIntOp (int ?k)) = int ?k"
    using assms(2) by (intro asSmallInt_smallIntOp) simp_all
  have l4: "\<not> length ?pops < 4"
    using assms(1) by (cases pubkeys) (simp_all add: multiSigPops_nth(1))
  have li: "int (length ?pops) - 2 - 1 = int ?k" by (simp add: multiSigPops_nth(1))
  show ?thesis
    unfolding isMultiSig_def Let_def
    by (simp only: l4 li multiSigPops_nth(2-5) s0 sa va keys if_False simp_thms)
qed

text \<open>
  Claim C8, as the code has it. \<open>MultiSigScript\<close> fails with \<open>ErrBadNumRequired\<close> when
  \<open>nrequired\<close> exceeds the number of keys. Otherwise, for 1 to 16 serialized keys of 33 or
  65 bytes and \<open>0 \<le> nrequired\<close>, the built script classifies as \<open>MultiSigTy\<close> and
  \<open>CalcMultiSigStats\<close> on it returns the number of keys and \<open>nrequired\<close>.
\<close>

theorem MultiSigScript_roundtrip:
  assumes "1 \<le> length pubkeys" "length pubkeys \<le> 16" "0 \<le> nrequired"
    and "\<forall>pk \<in> set pubkeys. length pk = 33 \<or> length pk = 65"
  shows "(int (length pubkeys) < nrequired \<longrightarrow>
            MultiSigScript pubkeys nrequired = Inl ErrBadNumRequired) \<and>
         (nrequired \<le> int (length pubkeys) \<longrightarrow>
            (\<exists>scr. MultiSigScript pubkeys nrequired = Inr scr \<and>
                   GetScriptClass scr = MultiSigTy \<and>
                   CalcMultiSigStats scr = Inr (int (length pubkeys), nrequired)))"
proof (intro conjI impI)
  assume "int (length pubkeys) < nrequired"
  then show "MultiSigScript pubkeys nrequired = Inl ErrBadNumRequired"
    by (simp add: MultiSigScript_def)
next
  assume le: "nrequired \<le> int (length pubkeys)"
  let ?scr = "multiSigBytes pubkeys nrequired"
  let ?pops = "multiSigPops pubkeys nrequired"
  have n16: "nrequired \<le> 16" using assms(2) le by simp
  have b: "MultiSigScript pubkeys nrequired = Inr ?scr"
    using assms(2,3) le assms(4) by (rule MultiSigScript_bytes)
  have p: "parseScript ?scr = Inr ?pops"
    using assms(2,3) le assms(4) by (rule parse_multiSigBytes)
  have m: "isMultiSig ?pops"
    using assms(1,2,3) le assms(4) by (rule isMultiSig_multiSigPops)
  have c: "GetScriptClass ?scr = MultiSigTy"
    by (simp add: GetScriptClass_def p typeOfScript_def m)
  have l4: "\<not> length ?pops < 4"
    using assms(1) by (cases pubkeys) (simp_all add: multiSigPops_nth(1))
  have v0: "asSmallInt (smallIntOp nrequired) = nrequired"
    using assms(3) n16 by (rule asSmallInt_smallIntOp)
  have va: "asSmallInt (smallIntOp (int (length pubkeys))) = int (length pubkeys)"
    using assms(2) by (intro asSmallInt_smallIntOp) simp_all
  have s: "CalcMultiSigStats ?scr = Inr (int (length pubkeys), nrequired)"
    unfolding CalcMultiSigStats_def Let_def
    by (simp only: p sum.case l4 if_False multiSigPops_nth(2,3) v0 va)
  show "\<exists>scr. MultiSigScript pubkeys nrequired = Inr scr \<and>
              GetScriptClass scr = MultiSigTy \<and>
              CalcMultiSigStats scr = Inr (int (length pubkeys), nrequired)"
    using b c s by blast
qed

text \<open>Scenario S1: two keys of 33 bytes, both required; and one key with two required.\<close>

theorem MultiSigScript_roundtrip_witness:
  "(\<exists>scr. MultiSigScript [2 # replicate 32 0x11, 3 # replicate 32 0x22] 2 = Inr scr \<and>
          GetScriptClass scr = MultiSigTy \<and> CalcMultiSigStats scr = Inr (2, 2)) \<and>
   MultiSigScript [2 # replicate 32 0x11, 3 # replicate 32 0x22] 2 =
     Inr (0x52 # 0x21 # (2 # replicate 32 0x11) @ 0x21 # (3 # replicate 32 0x22) @ [0x52, 0xae]) \<and>
   MultiSigScript [2 # replicate 32 0x11] 2 = Inl ErrBadNumRequired"
proof -
  have e: "MultiSigScript [2 # replicate 32 0x11, 3 # replicate 32 0x22] 2 =
     Inr (0x52 # 0x21 # (2 # replicate 32 0x11) @ 0x21 # (3 # replicate 32 0x22) @ [0x52, 0xae])"
    by (simp add: MultiSigScript_def builder_eval opcode_defs)
  show ?thesis
    using MultiSigScript_roundtrip [of "[2 # replicate 32 0x11, 3 # replicate 32 0x22]" 2]
      MultiSigScript_roundtrip [of "[2 # replicate 32 0x11]" 2] e
    by simp
qed

text \<open>
  Claim C8 as stated fails: with no keys and \<open>nrequired = 0\<close> the builder does not fail,
  yet the script has three opcodes, is \<open>NonStandardTy\<close>, and \<open>CalcMultiSigStats\<close> returns
  \<open>ErrStackUnderflow\<close>.
\<close>

theorem MultiSigScript_no_keys:
  "\<not> int (length ([] :: byte list list)) < 0 \<and>
   MultiSigScript [] 0 = Inr [0x00, 0x00, 0xae] \<and>
   GetScriptClass [0x00, 0x00, 0xae] = NonStandardTy \<and>
   CalcMultiSigStats [0x00, 0x00, 0xae] = Inl ErrStackUnderflow"
  by (simp add: MultiSigScript_def builder_eval GetScriptClass_def typeOfScript_def
      CalcMultiSigStats_def script_eval)

section \<open>ExtractPkScriptAddrs on a key that is refused\<close>

lemma forEach_panics:
  assumes "\<exists>x \<in> set xs. \<forall>s. snd (f x s) = Some RuntimePanic"
    and "\<forall>x \<in> set xs. \<forall>s e. snd (f x s) = Some e \<longrightarrow> e = RuntimePanic"
  shows "snd (forEach f xs s) = Some RuntimePanic"
  using assms
proof (induction xs arbitrary: s)
  case Nil
  then show ?case by simp
next
  case (Cons x xs)
  show ?case
  proof (cases "f x s")
    case (Pair s' r)
    show ?thesis
    proof (cases r)
      case None
      with Pair Cons.prems(1) have "\<exists>x \<in> set xs. \<forall>s. snd (f x s) = Some RuntimePanic"
        by (metis option.distinct(1) set_ConsD snd_conv)
      with Cons.IH [of s'] Cons.prems(2) Pair None show ?thesis by simp
    next
      case (Some e)
      with Pair Cons.prems(2) have "e = RuntimePanic" by (metis list.set_intros(1) snd_conv)
      with Pair Some show ?thesis by simp
    qed
  qed
qed

lemma pubKeyStep_errors: "snd (pubKeyStep mu pops i acc) = Some e \<Longrightarrow> e = RuntimePanic"
  by (auto simp: pubKeyStep_def index_def Let_def split: sum.splits prod.splits option.splits if_splits)

lemma isMultiSig_shape:
  assumes "isMultiSig pops"
  shows "4 \<le> length pops \<and>
         asSmallInt (opcode (pops ! (length pops - 2))) = int (length pops) - 3"
  using assms by (auto simp: isMultiSig_def Let_def split: if_splits)

text \<open>
  Claim C5 on a key whose address construction fails. For a script that parses and
  classifies as \<open>MultiSigTy\<close>, if \<open>NewAddressPubKey\<close> refuses the key push at position
  \<open>i + 1\<close> (a \<open>nil\<close> address and an error), the loop calls \<open>addr.PubKey()\<close> on the \<open>nil\<close>
  address before it looks at the error: \<open>ExtractPkScriptAddrs\<close> panics instead of omitting
  the key.
\<close>

theorem ExtractPkScriptAddrs_refused_key_panics:
  assumes "parseScript pkScript = Inr pops" "typeOfScript pops = MultiSigTy"
    and "i + 3 < length pops"
    and "NewAddressPubKey mu (dataBytes (pops ! (i + 1))) = (None, Some e)"
  shows "ExtractPkScriptAddrs mu pkScript = Inl RuntimePanic"
proof -
  have m: "isMultiSig pops" using assms(2) by (simp add: typeOfScript_def split: if_splits)
  from isMultiSig_shape [OF m] have l4: "4 \<le> length pops"
    and n: "asSmallInt (opcode (pops ! (length pops - 2))) = int (length pops) - 3"
    by simp_all
  have i0: "index pops 0 = Inr (pops ! 0)" using l4 by (cases pops) (simp_all add: index_def)
  have i2: "index pops (int (length pops) - 2) = Inr (pops ! (length pops - 2))"
    using l4 by (simp add: index_def nat_diff_distrib)
  have k: "nat (int (length pops) - 3) = length pops - 3" by simp
  have "index pops (int i + 1) = Inr (pops ! (i + 1))"
    using assms(3) by (simp add: index_def nat_add_distrib)
  then have "\<forall>acc. snd (pubKeyStep mu pops i acc) = Some RuntimePanic"
    using assms(4) by (simp add: pubKeyStep_def)
  moreover have "i \<in> set [0 ..< length pops - 3]" using assms(3) by simp
  ultimately have "\<exists>x \<in> set [0 ..< length pops - 3].
      \<forall>acc. snd (pubKeyStep mu pops x acc) = Some RuntimePanic"
    by blast
  then have "snd (forEach (pubKeyStep mu pops) [0 ..< length pops - 3] ([], [])) =
             Some RuntimePanic"
    by (intro forEach_panics) (auto dest: pubKeyStep_errors)
  then obtain acc where
    "forEach (pubKeyStep mu pops) [0 ..< length pops - 3] ([], []) = (acc, Some RuntimePanic)"
    by (cases "forEach (pubKeyStep mu pops) [0 ..< length pops - 3] ([], [])") simp
  then show ?thesis
    by (cases acc) (simp add: ExtractPkScriptAddrs_def assms(1,2) i0 i2 n k Let_def)
qed

text \<open>
  The script \<open>OP_1 <33 zero bytes> OP_1 OP_CHECKMULTISIG\<close>: its one key has no valid
  format byte.
\<close>

theorem ExtractPkScriptAddrs_refused_key_panics_witness:
  "parseScript (0x51 # 0x21 # replicate 33 0x00 @ [0x51, 0xae]) =
     Inr [\<lparr>opcode = 0x51, data = None\<rparr>, \<lparr>opcode = 0x21, data = Some (replicate 33 0x00)\<rparr>,
          \<lparr>opcode = 0x51, data = None\<rparr>, \<lparr>opcode = 0xae, data = None\<rparr>] \<and>
   GetScriptClass (0x51 # 0x21 # replicate 33 0x00 @ [0x51, 0xae]) = MultiSigTy \<and>
   NewAddressPubKey formatByteKeys (replicate 33 0x00) = (None, Some ErrAddress) \<and>
   ExtractPkScriptAddrs formatByteKeys (0x51 # 0x21 # replicate 33 0x00 @ [0x51, 0xae]) =
     Inl RuntimePanic"
proof -
  let ?pops = "[\<lparr>opcode = 0x51, data = None\<rparr>, \<lparr>opcode = 0x21, data = Some (replicate 33 0x00)\<rparr>,
          \<lparr>opcode = 0x51, data = None\<rparr>, \<lparr>opcode = 0xae, data = None\<rparr>]"
  have p: "parseScript (0x51 # 0x21 # replicate 33 0x00 @ [0x51, 0xae]) = Inr ?pops"
    by (simp add: script_eval)
  have t: "typeOfScript ?pops = MultiSigTy"
    by (simp add: typeOfScript_def script_eval)
  have f: "NewAddressPubKey formatByteKeys (dataBytes (?pops ! (0 + 1))) = (None, Some ErrAddress)"
    by (simp add: formatByteKeys_def dataBytes_def)
  have c: "GetScriptClass (0x51 # 0x21 # replicate 33 0x00 @ [0x51, 0xae]) = MultiSigTy"
    by (simp only: GetScriptClass_def p sum.case t)
  have g: "NewAddressPubKey formatByteKeys (replicate 33 0x00) = (None, Some ErrAddress)"
    by (simp add: formatByteKeys_def)
  have "0 + 3 < length ?pops" by simp
  from ExtractPkScriptAddrs_refused_key_panics [OF p t this f]
  have x: "ExtractPkScriptAddrs formatByteKeys (0x51 # 0x21 # replicate 33 0x00 @ [0x51, 0xae]) =
     Inl RuntimePanic" .
  show ?thesis using p c g x by (intro conjI)
qed

section \<open>Insert and rollback\<close>

subsection \<open>The order on spend states\<close>

lemma le_entry_refl: "le_entry e e"
  by (simp add: le_entry_def list_all2_refl)

lemma le_entry_trans: "le_entry a b \<Longrightarrow> le_entry b c \<Longrightarrow> le_entry a c"
  unfolding le_entry_def
  by (auto elim: list_all2_trans [rotated])

lemma le_txns_refl: "le_txns m m"
  by (simp add: le_txns_def option.rel_refl list_all2_refl le_entry_refl)

lemma le_txns_trans:
  assumes "le_txns a b" "le_txns b c"
  shows "le_txns a c"
  unfolding le_txns_def
proof
  fix h
  from assms have 1: "rel_option (list_all2 le_entry) (a h) (b h)"
    and 2: "rel_option (list_all2 le_entry) (b h) (c h)"
    by (simp_all add: le_txns_def)
  show "rel_option (list_all2 le_entry) (a h) (c h)"
  proof (cases "b h")
    case None
    with 1 2 show ?thesis by (cases "a h"; cases "c h") simp_all
  next
    case (Some bs)
    with 1 obtain as where a: "a h = Some as" "list_all2 le_entry as bs"
      by (cases "a h") simp_all
    from Some 2 obtain cs where c: "c h = Some cs" "list_all2 le_entry bs cs"
      by (cases "c h") simp_all
    have "list_all2 le_entry as cs"
      using a(2) c(2) by (rule list_all2_trans [rotated]) (rule le_entry_trans)
    with a c show ?thesis by simp
  qed
qed

text \<open>
  What a write of a flag does when it does not panic: the origin has a most recent
  entry, the index is inside its flags, and that one flag is written.
\<close>

lemma setSpent_None:
  "setSpent v p db = (db', None) \<longleftrightarrow>
   (\<exists>es l. txns db (Hash p) = Some (es @ [l]) \<and> unat (Index p) < length (spentBuf l) \<and>
      db' = db\<lparr>txns := (txns db)(Hash p \<mapsto> es @ [l\<lparr>spentBuf := (spentBuf l)[unat (Index p) := v]\<rparr>])\<rparr>)"
proof (cases "txns db (Hash p)")
  case None
  then show ?thesis by (simp add: setSpent_def)
next
  case (Some xs)
  show ?thesis
  proof (cases xs rule: rev_cases)
    case Nil
    with Some show ?thesis by (simp add: setSpent_def)
  next
    case (snoc es l)
    with Some show ?thesis by (auto simp: setSpent_def)
  qed
qed

lemma setSpent_Some: "setSpent v p db = (db', Some e) \<Longrightarrow> e = RuntimePanic \<and> db' = db"
  by (auto simp: setSpent_def split: option.splits if_splits)

lemma list_all2_snoc2:
  "list_all2 P xs (ys @ [y]) \<longleftrightarrow> (\<exists>xs0 x. xs = xs0 @ [x] \<and> list_all2 P xs0 ys \<and> P x y)"
proof
  assume l: "list_all2 P xs (ys @ [y])"
  then have len: "length xs = Suc (length ys)" by (auto dest: list_all2_lengthD)
  then obtain xs0 x where xs: "xs = xs0 @ [x]" by (cases xs rule: rev_cases) auto
  with len have "length xs0 = length ys" by simp
  with l xs have "list_all2 P xs0 ys \<and> P x y" by (simp add: list_all2_append)
  with xs show "\<exists>xs0 x. xs = xs0 @ [x] \<and> list_all2 P xs0 ys \<and> P x y" by blast
next
  assume "\<exists>xs0 x. xs = xs0 @ [x] \<and> list_all2 P xs0 ys \<and> P x y"
  then show "list_all2 P xs (ys @ [y])" by (auto intro: list_all2_appendI)
qed

lemma list_all2_snoc1:
  "list_all2 P (xs @ [x]) ys \<longleftrightarrow> (\<exists>ys0 y. ys = ys0 @ [y] \<and> list_all2 P xs ys0 \<and> P x y)"
proof
  assume l: "list_all2 P (xs @ [x]) ys"
  then have len: "length ys = Suc (length xs)" by (auto dest: list_all2_lengthD)
  then obtain ys0 y where ys: "ys = ys0 @ [y]" by (cases ys rule: rev_cases) auto
  with len have "length xs = length ys0" by simp
  with l ys have "list_all2 P xs ys0 \<and> P x y" by (simp add: list_all2_append)
  with ys show "\<exists>ys0 y. ys = ys0 @ [y] \<and> list_all2 P xs ys0 \<and> P x y" by blast
next
  assume "\<exists>ys0 y. ys = ys0 @ [y] \<and> list_all2 P xs ys0 \<and> P x y"
  then show "list_all2 P (xs @ [x]) ys" by (auto intro: list_all2_appendI)
qed

lemma le_entry_length: "le_entry e' e \<Longrightarrow> length (spentBuf e') = length (spentBuf e)"
  by (auto simp: le_entry_def dest: list_all2_lengthD)

lemma le_flags_clear: "list_all2 (\<lambda>x y. x \<longrightarrow> y) (sb[i := False]) sb"
  unfolding list_all2_conv_all_nth
  by (metis length_list_update nth_list_update_eq nth_list_update_neq)

lemma le_flags_set: "list_all2 (\<lambda>x y. x \<longrightarrow> y) sb (sb[i := True])"
  unfolding list_all2_conv_all_nth
  by (metis length_list_update nth_list_update_eq nth_list_update_neq)

lemma le_entry_clear: "le_entry (l\<lparr>spentBuf := (spentBuf l)[i := False]\<rparr>) l"
  by (simp add: le_entry_def le_flags_clear)

lemma le_entry_set: "le_entry l (l\<lparr>spentBuf := (spentBuf l)[i := True]\<rparr>)"
  by (simp add: le_entry_def le_flags_set)

lemma le_txns_upd:
  assumes "m h = Some (es @ [l])" "le_entry l' l"
  shows "le_txns (m(h \<mapsto> es @ [l'])) m"
  using assms
  by (auto simp: le_txns_def option.rel_refl list_all2_refl le_entry_refl list_all2_snoc2)

lemma le_txns_upd':
  assumes "m h = Some (es @ [l])" "le_entry l l'"
  shows "le_txns m (m(h \<mapsto> es @ [l']))"
  using assms
  by (auto simp: le_txns_def option.rel_refl list_all2_refl le_entry_refl list_all2_snoc2)

lemma setSpent_False_le:
  assumes "setSpent False p b = (b2, None)"
  shows "le_txns (txns b2) (txns b)"
proof -
  from assms obtain es l where "txns b (Hash p) = Some (es @ [l])"
    and "b2 = b\<lparr>txns := (txns b)(Hash p \<mapsto> es @ [l\<lparr>spentBuf := (spentBuf l)[unat (Index p) := False]\<rparr>])\<rparr>"
    unfolding setSpent_None by blast
  then show ?thesis by (simp add: le_txns_upd le_entry_clear)
qed

lemma setSpent_True_le:
  assumes "setSpent True p a = (a2, None)"
  shows "le_txns (txns a) (txns a2)"
proof -
  from assms obtain es l where "txns a (Hash p) = Some (es @ [l])"
    and "a2 = a\<lparr>txns := (txns a)(Hash p \<mapsto> es @ [l\<lparr>spentBuf := (spentBuf l)[unat (Index p) := True]\<rparr>])\<rparr>"
    unfolding setSpent_None by blast
  then show ?thesis by (simp add: le_txns_upd' le_entry_set)
qed

text \<open>
  Two tx maps below a common one have the same shape, so a flag that can be written in
  one can be written in the other.
\<close>

lemma setSpent_transfer:
  assumes "setSpent v p a1 = (a2, None)" "le_txns (txns a1) m" "le_txns (txns b) m"
  shows "\<exists>b2. setSpent w p b = (b2, None)"
proof -
  from assms(1) obtain es l where a: "txns a1 (Hash p) = Some (es @ [l])"
    and i: "unat (Index p) < length (spentBuf l)"
    unfolding setSpent_None by blast
  from assms(2) a obtain ms0 lm where m: "m (Hash p) = Some (ms0 @ [lm])" and lm: "le_entry l lm"
    by (auto simp: le_txns_def list_all2_snoc1 option_rel_Some1 dest!: spec [of _ "Hash p"])
  from assms(3) m obtain bs0 lb where b: "txns b (Hash p) = Some (bs0 @ [lb])" and lb: "le_entry lb lm"
    by (auto simp: le_txns_def list_all2_snoc2 option_rel_Some2 dest!: spec [of _ "Hash p"])
  have "unat (Index p) < length (spentBuf lb)"
    using i le_entry_length [OF lm] le_entry_length [OF lb] by simp
  with b show ?thesis unfolding setSpent_None by blast
qed

lemma le_flags_meet:
  assumes "list_all2 (\<lambda>x y. x \<longrightarrow> y) sx (sa[i := True])"
    and "list_all2 (\<lambda>x y. x \<longrightarrow> y) sx (sb[i := False])"
    and "i < length sb"
  shows "list_all2 (\<lambda>x y. x \<longrightarrow> y) sx sa"
  using assms
  by (auto simp: list_all2_conv_all_nth nth_list_update split: if_splits)

text \<open>
  The step that undoes one spend: a tx map below the state with the flag set and below
  a state with the same flag cleared is below the state before the flag was set.
\<close>

lemma setSpent_meet:
  assumes a: "setSpent True p a1 = (a2, None)"
    and b: "setSpent False p b1 = (b2, None)"
    and xa: "le_txns x (txns a2)" and xb: "le_txns x (txns b2)"
  shows "le_txns x (txns a1)"
  unfolding le_txns_def
proof
  fix h
  from a obtain es l where a1: "txns a1 (Hash p) = Some (es @ [l])"
    and a2: "a2 = a1\<lparr>txns := (txns a1)(Hash p \<mapsto> es @ [l\<lparr>spentBuf := (spentBuf l)[unat (Index p) := True]\<rparr>])\<rparr>"
    unfolding setSpent_None by blast
  from b obtain bs lb where b1: "txns b1 (Hash p) = Some (bs @ [lb])"
    and ib: "unat (Index p) < length (spentBuf lb)"
    and b2: "b2 = b1\<lparr>txns := (txns b1)(Hash p \<mapsto> bs @ [lb\<lparr>spentBuf := (spentBuf lb)[unat (Index p) := False]\<rparr>])\<rparr>"
    unfolding setSpent_None by blast
  show "rel_option (list_all2 le_entry) (x h) (txns a1 h)"
  proof (cases "h = Hash p")
    case False
    with xa a2 show ?thesis by (auto simp: le_txns_def dest!: spec [of _ h])
  next
    case True
    from xa a2 obtain xs0 lx where x: "x (Hash p) = Some (xs0 @ [lx])"
      and x0: "list_all2 le_entry xs0 es"
      and la: "le_entry lx (l\<lparr>spentBuf := (spentBuf l)[unat (Index p) := True]\<rparr>)"
      by (auto simp: le_txns_def list_all2_snoc2 option_rel_Some2 dest!: spec [of _ "Hash p"])
    from xb b2 x have lb': "le_entry lx (lb\<lparr>spentBuf := (spentBuf lb)[unat (Index p) := False]\<rparr>)"
      by (auto simp: le_txns_def list_all2_snoc2 dest!: spec [of _ "Hash p"])
    have "le_entry lx l"
      using la lb' ib le_flags_meet [of "spentBuf lx" "spentBuf l" "unat (Index p)" "spentBuf lb"]
      by (simp add: le_entry_def)
    with x x0 a1 True show ?thesis by (simp add: list_all2_snoc2)
  qed
qed

subsection \<open>Undoing the spends of one transaction\<close>

lemma forEach_Cons_None:
  "forEach f (x # xs) s = (s'', None) \<longleftrightarrow>
   (\<exists>s'. f x s = (s', None) \<and> forEach f xs s' = (s'', None))"
  by (cases "f x s") (auto split: option.splits)

lemma forEach_append_None:
  "forEach f (xs @ ys) s = (s'', None) \<longleftrightarrow>
   (\<exists>s'. forEach f xs s = (s', None) \<and> forEach f ys s' = (s'', None))"
proof (induction xs arbitrary: s)
  case Nil
  then show ?case by simp
next
  case (Cons x xs)
  show ?case
    unfolding append_Cons forEach_Cons_None Cons.IH by blast
qed

lemma IsCoinBaseTx_eq: "IsCoinBaseTx tx = isCoinBaseTx tx"
  by (auto simp: IsCoinBaseTx_def isCoinBaseTx_def split: list.splits)

lemma setSpent_frame: "setSpent v p db = (db', r) \<Longrightarrow> frame db' = frame db"
  by (auto simp: setSpent_def frame_def split: option.splits if_splits)

lemma spendInput_None:
  assumes "spendInput tx p a = (a', None)" "isCoinBaseTx tx = Inr False"
  shows "(isCoinbaseInput p \<and> a' = a) \<or> (\<not> isCoinbaseInput p \<and> setSpent True p a = (a', None))"
  using assms by (auto simp: spendInput_def split: if_splits)

lemma spend_inputs_le:
  assumes "forEach (spendInput tx) ins a = (a', None)" "isCoinBaseTx tx = Inr False"
  shows "le_txns (txns a) (txns a') \<and> frame a' = frame a"
  using assms(1)
proof (induction ins arbitrary: a)
  case Nil
  then show ?case by (simp add: le_txns_refl)
next
  case (Cons p ps)
  then obtain a2 where s: "spendInput tx p a = (a2, None)"
    and r: "forEach (spendInput tx) ps a2 = (a', None)"
    unfolding forEach_Cons_None by blast
  from Cons.IH [OF r] have ih: "le_txns (txns a2) (txns a')" "frame a' = frame a2"
    by simp_all
  from spendInput_None [OF s assms(2)] show ?case
  proof
    assume "isCoinbaseInput p \<and> a2 = a"
    with ih show ?thesis by simp
  next
    assume "\<not> isCoinbaseInput p \<and> setSpent True p a = (a2, None)"
    then have t: "setSpent True p a = (a2, None)" by simp
    have "le_txns (txns a) (txns a')"
      using setSpent_True_le [OF t] ih(1) by (rule le_txns_trans)
    moreover have "frame a' = frame a"
      using setSpent_frame [OF t] ih(2) by simp
    ultimately show ?thesis by simp
  qed
qed

lemma unspendInput_coinbaseInput: "isCoinbaseInput p \<Longrightarrow> unspendInput tx p b = (b, None)"
  by (simp add: unspendInput_def)

lemma unspendInput_setSpent:
  assumes "\<not> isCoinbaseInput p" "isCoinBaseTx tx = Inr False" "setSpent False p b = (b2, None)"
  shows "unspendInput tx p b = (b2, None)"
proof -
  from assms(3) have "txns b (Hash p) \<noteq> None" unfolding setSpent_None by auto
  with assms show ?thesis by (auto simp: unspendInput_def IsCoinBaseTx_eq)
qed

text \<open>
  The unspend loop of \<open>removeTx\<close> against the spend loop of \<open>InsertBlock\<close>, both over the
  inputs in the same order: run on a state below the one the spends produced, the
  unspends do not panic and end below the state the spends started from.
\<close>

lemma unspend_inputs:
  assumes "forEach (spendInput tx) ins a1 = (a', None)"
    and "le_txns (txns b') (txns a')"
    and "isCoinBaseTx tx = Inr False"
  shows "\<exists>b''. forEach (unspendInput tx) ins b' = (b'', None) \<and>
               le_txns (txns b'') (txns a1) \<and> le_txns (txns b'') (txns b') \<and>
               frame b'' = frame b'"
  using assms(1,2)
proof (induction ins arbitrary: a1 b')
  case Nil
  then show ?case by (simp add: le_txns_refl)
next
  case (Cons p ps)
  from Cons.prems(1) obtain a2 where s: "spendInput tx p a1 = (a2, None)"
    and r: "forEach (spendInput tx) ps a2 = (a', None)"
    unfolding forEach_Cons_None by blast
  from spendInput_None [OF s assms(3)] show ?case
  proof
    assume c: "isCoinbaseInput p \<and> a2 = a1"
    then have u: "unspendInput tx p b' = (b', None)" by (simp add: unspendInput_coinbaseInput)
    from Cons.IH [OF _ Cons.prems(2)] r c obtain b'' where
      "forEach (unspendInput tx) ps b' = (b'', None)" "le_txns (txns b'') (txns a1)"
      "le_txns (txns b'') (txns b')" "frame b'' = frame b'"
      by blast
    with u show ?thesis unfolding forEach_Cons_None by blast
  next
    assume c: "\<not> isCoinbaseInput p \<and> setSpent True p a1 = (a2, None)"
    then have t: "setSpent True p a1 = (a2, None)" and nc: "\<not> isCoinbaseInput p" by simp_all
    have a2a': "le_txns (txns a2) (txns a')" using spend_inputs_le [OF r assms(3)] by simp
    have a1a': "le_txns (txns a1) (txns a')"
      using setSpent_True_le [OF t] a2a' by (rule le_txns_trans)
    from setSpent_transfer [OF t a1a' Cons.prems(2)]
    obtain b2 where f: "setSpent False p b' = (b2, None)" by blast
    have u: "unspendInput tx p b' = (b2, None)" using nc assms(3) f by (rule unspendInput_setSpent)
    have b2b': "le_txns (txns b2) (txns b')" using f by (rule setSpent_False_le)
    have b2a': "le_txns (txns b2) (txns a')" using b2b' Cons.prems(2) by (rule le_txns_trans)
    from Cons.IH [OF r b2a'] obtain b'' where
      l: "forEach (unspendInput tx) ps b2 = (b'', None)" and xa: "le_txns (txns b'') (txns a2)"
      and xb: "le_txns (txns b'') (txns b2)" and fr: "frame b'' = frame b2"
      by blast
    have "le_txns (txns b'') (txns a1)" using t f xa xb by (rule setSpent_meet)
    moreover have "le_txns (txns b'') (txns b')" using xb b2b' by (rule le_txns_trans)
    moreover have "frame b'' = frame b'" using fr setSpent_frame [OF f] by simp
    ultimately show ?thesis using u l unfolding forEach_Cons_None by blast
  qed
qed

lemma unspend_inputs_coinbase:
  assumes "isCoinBaseTx tx = Inr True"
  shows "forEach (unspendInput tx) ins b = (b, None)"
proof (induction ins)
  case Nil
  then show ?case by simp
next
  case (Cons p ps)
  have "unspendInput tx p b = (b, None)"
    using assms by (simp add: unspendInput_def IsCoinBaseTx_eq)
  with Cons show ?case by simp
qed

lemma le_txns_nonEmpty: "le_txns m' m \<Longrightarrow> nonEmptyLists m' \<longleftrightarrow> nonEmptyLists m"
  unfolding le_txns_def nonEmptyLists_def
  by (metis list_all2_Nil list_all2_Nil2 option_rel_Some1 option_rel_Some2)

lemma insertTx_None:
  assumes "insertTx nh (i, tx) a = (a', None)"
  defines "a1 \<equiv> a\<lparr>txns := (txns a)(TxSha tx \<mapsto>
              (case txns a (TxSha tx) of None \<Rightarrow> [] | Some txs \<Rightarrow> txs) @
              [\<lparr>blockHeight = nh, offset = i, spentBuf = replicate (TxOut tx) False\<rparr>])\<rparr>"
  shows "(isCoinBaseTx tx = Inr True \<and> a' = a1) \<or>
         (isCoinBaseTx tx = Inr False \<and> forEach (spendInput tx) (TxIn tx) a1 = (a', None))"
proof (cases "isCoinBaseTx tx")
  case (Inl e)
  with assms(1) show ?thesis by (simp add: insertTx_def Let_def)
next
  case (Inr c)
  with assms(1) show ?thesis
    unfolding a1_def by (cases c) (simp_all add: insertTx_def Let_def)
qed

text \<open>
  One transaction: \<open>removeTx\<close>, run on a state below the one \<open>insertTx\<close> produced, ends
  below the state \<open>insertTx\<close> started from.
\<close>

lemma removeTx_undoes_insertTx:
  assumes ins: "insertTx nh (i, tx) a = (a', None)"
    and le: "le_txns (txns b') (txns a')"
    and ne: "nonEmptyLists (txns a)"
  shows "\<exists>b. removeTx tx (TxSha tx) b' = (b, None) \<and> le_txns (txns b) (txns a) \<and>
             frame b = frame b'"
proof -
  define old where "old = (case txns a (TxSha tx) of None \<Rightarrow> [] | Some txs \<Rightarrow> txs)"
  define txD where "txD = \<lparr>blockHeight = nh, offset = i, spentBuf = replicate (TxOut tx) False\<rparr>"
  define a1 where "a1 = a\<lparr>txns := (txns a)(TxSha tx \<mapsto> old @ [txD])\<rparr>"
  have cases: "(isCoinBaseTx tx = Inr True \<and> a' = a1) \<or>
         (isCoinBaseTx tx = Inr False \<and> forEach (spendInput tx) (TxIn tx) a1 = (a', None))"
    using insertTx_None [OF ins] unfolding a1_def old_def txD_def .
  have "\<exists>b''. forEach (unspendInput tx) (TxIn tx) b' = (b'', None) \<and>
              le_txns (txns b'') (txns a1) \<and> frame b'' = frame b'"
    using cases
  proof
    assume "isCoinBaseTx tx = Inr True \<and> a' = a1"
    with le show ?thesis by (auto simp: unspend_inputs_coinbase)
  next
    assume "isCoinBaseTx tx = Inr False \<and> forEach (spendInput tx) (TxIn tx) a1 = (a', None)"
    with unspend_inputs [OF _ le, of tx "TxIn tx" a1] show ?thesis by blast
  qed
  then obtain b'' where u: "forEach (unspendInput tx) (TxIn tx) b' = (b'', None)"
    and l1: "le_txns (txns b'') (txns a1)" and fr: "frame b'' = frame b'"
    by blast
  from l1 obtain xs0 lx where x: "txns b'' (TxSha tx) = Some (xs0 @ [lx])"
    and x0: "list_all2 le_entry xs0 old"
    by (auto simp: a1_def le_txns_def list_all2_snoc2 option_rel_Some2 dest!: spec [of _ "TxSha tx"])
  have other: "rel_option (list_all2 le_entry) (txns b'' h) (txns a h)" if "h \<noteq> TxSha tx" for h
    using l1 that by (auto simp: a1_def le_txns_def dest!: spec [of _ h])
  show ?thesis
  proof (cases "xs0 = []")
    case True
    with x0 have "old = []" by simp
    with ne have an: "txns a (TxSha tx) = None"
      by (auto simp: old_def nonEmptyLists_def split: option.splits)
    let ?b = "b''\<lparr>txns := (txns b'')(TxSha tx := None)\<rparr>"
    have "removeTx tx (TxSha tx) b' = (?b, None)"
      using u x True by (simp add: removeTx_def)
    moreover have "le_txns (txns ?b) (txns a)"
      using an other by (auto simp: le_txns_def)
    moreover have "frame ?b = frame b'" using fr by (simp add: frame_def)
    ultimately show ?thesis by blast
  next
    case False
    with x0 have "old \<noteq> []" by auto
    then have an: "txns a (TxSha tx) = Some old"
      by (auto simp: old_def split: option.splits)
    let ?b = "b''\<lparr>txns := (txns b'')(TxSha tx \<mapsto> xs0)\<rparr>"
    have "removeTx tx (TxSha tx) b' = (?b, None)"
      using u x False by (simp add: removeTx_def)
    moreover have "le_txns (txns ?b) (txns a)"
      using an other x0 by (auto simp: le_txns_def)
    moreover have "frame ?b = frame b'" using fr by (simp add: frame_def)
    ultimately show ?thesis by blast
  qed
qed

lemma insertTx_frame_nonEmpty:
  assumes "insertTx nh (i, tx) a = (a', None)" "nonEmptyLists (txns a)"
  shows "frame a' = frame a \<and> nonEmptyLists (txns a')"
proof -
  define a1 where "a1 = a\<lparr>txns := (txns a)(TxSha tx \<mapsto>
              (case txns a (TxSha tx) of None \<Rightarrow> [] | Some txs \<Rightarrow> txs) @
              [\<lparr>blockHeight = nh, offset = i, spentBuf = replicate (TxOut tx) False\<rparr>])\<rparr>"
  have f1: "frame a1 = frame a" by (simp add: a1_def frame_def)
  have n1: "nonEmptyLists (txns a1)"
    using assms(2) by (simp add: a1_def nonEmptyLists_def)
  from insertTx_None [OF assms(1)]
  have "(isCoinBaseTx tx = Inr True \<and> a' = a1) \<or>
        (isCoinBaseTx tx = Inr False \<and> forEach (spendInput tx) (TxIn tx) a1 = (a', None))"
    unfolding a1_def .
  then show ?thesis
  proof
    assume "isCoinBaseTx tx = Inr True \<and> a' = a1"
    with f1 n1 show ?thesis by simp
  next
    assume "isCoinBaseTx tx = Inr False \<and> forEach (spendInput tx) (TxIn tx) a1 = (a', None)"
    then have l: "le_txns (txns a1) (txns a')" and f: "frame a' = frame a1"
      using spend_inputs_le by blast+
    from le_txns_nonEmpty [OF l] n1 have "nonEmptyLists (txns a')" by simp
    with f f1 show ?thesis by simp
  qed
qed

subsection \<open>Undoing a block and a chain of blocks\<close>

text \<open>
  One block: removing its transactions in reverse order undoes their insertion in
  order.
\<close>

lemma remove_block_undoes:
  assumes "forEach (insertTx nh) itxs a = (a', None)"
    and "le_txns (txns b') (txns a')"
    and "nonEmptyLists (txns a)"
  shows "\<exists>b. forEach (\<lambda>tx. removeTx tx (TxSha tx)) (rev (map snd itxs)) b' = (b, None) \<and>
             le_txns (txns b) (txns a) \<and> frame b = frame b'"
  using assms(1,3)
proof (induction itxs arbitrary: a)
  case Nil
  with assms(2) show ?case by simp
next
  case (Cons x rest)
  obtain i tx where x: "x = (i, tx)" by (cases x)
  from Cons.prems(1) obtain ax where s: "insertTx nh (i, tx) a = (ax, None)"
    and r: "forEach (insertTx nh) rest ax = (a', None)"
    unfolding forEach_Cons_None x by blast
  have nx: "nonEmptyLists (txns ax)" using insertTx_frame_nonEmpty [OF s Cons.prems(2)] by simp
  from Cons.IH [OF r nx] obtain bx where
    l: "forEach (\<lambda>tx. removeTx tx (TxSha tx)) (rev (map snd rest)) b' = (bx, None)"
    and le: "le_txns (txns bx) (txns ax)" and fr: "frame bx = frame b'"
    by blast
  from removeTx_undoes_insertTx [OF s le Cons.prems(2)] obtain b where
    u: "removeTx tx (TxSha tx) bx = (b, None)" and le': "le_txns (txns b) (txns a)"
    and fr': "frame b = frame bx"
    by blast
  have "forEach (\<lambda>tx. removeTx tx (TxSha tx)) (rev (map snd (x # rest))) b' = (b, None)"
    using l u by (simp add: x forEach_append_None)
  with le' fr fr' show ?case by auto
qed

lemma insert_block_frame_nonEmpty:
  assumes "forEach (insertTx nh) itxs a = (a', None)" "nonEmptyLists (txns a)"
  shows "frame a' = frame a \<and> nonEmptyLists (txns a')"
  using assms
proof (induction itxs arbitrary: a)
  case Nil
  then show ?case by simp
next
  case (Cons x rest)
  obtain i tx where x: "x = (i, tx)" by (cases x)
  from Cons.prems(1) obtain ax where s: "insertTx nh (i, tx) a = (ax, None)"
    and r: "forEach (insertTx nh) rest ax = (a', None)"
    unfolding forEach_Cons_None x by blast
  from insertTx_frame_nonEmpty [OF s Cons.prems(2)] Cons.IH [OF r] show ?case by simp
qed

lemma InsertBlock_Inr:
  assumes "InsertBlock a B = (a', Inr h)"
  shows "\<not> closed a \<and> h = int32 (int (length (blocks a))) \<and>
         forEach (insertTx h) (enumerate 0 (Transactions B))
           (a\<lparr>blocks := blocks a @ [B], blocksBySha := (blocksBySha a)(BlockSha B \<mapsto> h)\<rparr>) =
           (a', None)"
  using assms
  by (auto simp: InsertBlock_def Let_def split: if_splits option.splits prod.splits)

lemma InsertBlock_Inr_facts:
  assumes "InsertBlock a B = (a', Inr h)" "nonEmptyLists (txns a)"
  shows "blocks a' = blocks a @ [B]" "\<not> closed a'" "nonEmptyLists (txns a')"
    "blocksBySha a' = (blocksBySha a)(BlockSha B \<mapsto> int32 (int (length (blocks a))))"
proof -
  let ?a = "a\<lparr>blocks := blocks a @ [B], blocksBySha := (blocksBySha a)(BlockSha B \<mapsto> h)\<rparr>"
  from InsertBlock_Inr [OF assms(1)] have c: "\<not> closed a"
    and h: "h = int32 (int (length (blocks a)))"
    and f: "forEach (insertTx h) (enumerate 0 (Transactions B)) ?a = (a', None)"
    by blast+
  have "nonEmptyLists (txns ?a)" using assms(2) by simp
  from insert_block_frame_nonEmpty [OF f this]
  have fr: "frame a' = frame ?a" and ne: "nonEmptyLists (txns a')" by simp_all
  from fr c h show "blocks a' = blocks a @ [B]" "\<not> closed a'"
    "blocksBySha a' = (blocksBySha a)(BlockSha B \<mapsto> int32 (int (length (blocks a))))"
    by (simp_all add: frame_def)
  from ne show "nonEmptyLists (txns a')" .
qed

lemma insertBlocks_snoc:
  "insertBlocks a (bs @ [B]) = Some an \<longleftrightarrow>
   (\<exists>am h. insertBlocks a bs = Some am \<and> InsertBlock am B = (an, Inr h))"
proof (induction bs arbitrary: a)
  case Nil
  show ?case by (cases "InsertBlock a B") (auto split: sum.splits)
next
  case (Cons b bs)
  show ?case
    by (cases "InsertBlock a b") (auto simp: Cons.IH split: sum.splits)
qed

lemma insertBlocks_facts:
  assumes "insertBlocks a bs = Some an" "nonEmptyLists (txns a)"
  shows "nonEmptyLists (txns an) \<and> blocks an = blocks a @ bs \<and> closed an = closed a"
  using assms
proof (induction bs arbitrary: an rule: rev_induct)
  case Nil
  then show ?case by simp
next
  case (snoc B bs)
  from snoc.prems(1) obtain am h where m: "insertBlocks a bs = Some am"
    and i: "InsertBlock am B = (an, Inr h)"
    unfolding insertBlocks_snoc by blast
  from snoc.IH [OF m snoc.prems(2)] have ih: "nonEmptyLists (txns am)"
    "blocks am = blocks a @ bs" "closed am = closed a" by simp_all
  from InsertBlock_Inr_facts [OF i ih(1)] InsertBlock_Inr [OF i] ih show ?case by simp
qed

lemma insertBlocks_blocksBySha:
  assumes "insertBlocks a bs = Some an" "nonEmptyLists (txns a)" "\<forall>b \<in> set bs. BlockSha b \<noteq> h"
  shows "blocksBySha an h = blocksBySha a h"
  using assms
proof (induction bs arbitrary: an rule: rev_induct)
  case Nil
  then show ?case by simp
next
  case (snoc B bs)
  from snoc.prems(1) obtain am k where m: "insertBlocks a bs = Some am"
    and i: "InsertBlock am B = (an, Inr k)"
    unfolding insertBlocks_snoc by blast
  have ne: "nonEmptyLists (txns am)" using insertBlocks_facts [OF m snoc.prems(2)] by simp
  from snoc.IH [OF m snoc.prems(2)] snoc.prems(3) have "blocksBySha am h = blocksBySha a h" by simp
  with InsertBlock_Inr_facts(4) [OF i ne] snoc.prems(3) show ?case by auto
qed

text \<open>
  The loop of \<open>DropAfterBlockBySha\<close> against a chain of inserts: from a state below the
  end of the chain it walks back to a state below the start of the chain, with the
  block vector of the start.
\<close>

lemma dropLoop_undoes:
  assumes "insertBlocks a0 bs = Some an"
    and "blocks b = blocks an"
    and "le_txns (txns b) (txns an)"
    and "nonEmptyLists (txns a0)"
    and "1 \<le> length (blocks a0)"
  shows "\<exists>b0. dropLoop (int (length (blocks an)) - 1) (int (length (blocks a0)) - 1) b = (b0, None) \<and>
              blocks b0 = blocks a0 \<and> le_txns (txns b0) (txns a0)"
  using assms(1,2,3)
proof (induction bs arbitrary: an b rule: rev_induct)
  case Nil
  then have "an = a0" by simp
  with Nil show ?case by (subst dropLoop.simps) simp
next
  case (snoc B bs)
  from snoc.prems(1) obtain am h where m: "insertBlocks a0 bs = Some am"
    and i: "InsertBlock am B = (an, Inr h)"
    unfolding insertBlocks_snoc by blast
  from insertBlocks_facts [OF m assms(4)] have nm: "nonEmptyLists (txns am)"
    and bm: "blocks am = blocks a0 @ bs" by simp_all
  have bn: "blocks an = blocks am @ [B]" using InsertBlock_Inr_facts(1) [OF i nm] .
  let ?am = "am\<lparr>blocks := blocks am @ [B], blocksBySha := (blocksBySha am)(BlockSha B \<mapsto> h)\<rparr>"
  from InsertBlock_Inr [OF i]
  have f: "forEach (insertTx h) (enumerate 0 (Transactions B)) ?am = (an, None)" by blast
  have "nonEmptyLists (txns ?am)" using nm by simp
  from remove_block_undoes [OF f snoc.prems(3) this] obtain b1 where
    r: "forEach (\<lambda>tx. removeTx tx (TxSha tx)) (rev (Transactions B)) b = (b1, None)"
    and l1: "le_txns (txns b1) (txns am)" and fr: "frame b1 = frame b"
    by auto
  let ?i = "int (length (blocks an)) - 1"
  let ?b2 = "b1\<lparr>blocks := take (nat ?i) (blocks b1)\<rparr>"
  have ni: "nat ?i = length (blocks am)" using bn by simp
  have bb: "blocks b = blocks am @ [B]" using snoc.prems(2) bn by simp
  have b1b: "blocks b1 = blocks am @ [B]" using fr bb by (simp add: frame_def)
  have gt: "?i > int (length (blocks a0)) - 1" using bn bm by simp
  have inb: "0 \<le> ?i \<and> nat ?i < length (blocks b)" using bb bn by simp
  have nth: "blocks b ! nat ?i = B" using bb ni by simp
  have step: "dropLoop ?i (int (length (blocks a0)) - 1) b =
              dropLoop (?i - 1) (int (length (blocks a0)) - 1) ?b2"
    using gt inb by (subst dropLoop.simps) (simp add: nth r)
  have b2: "blocks ?b2 = blocks am" using b1b ni by simp
  have "le_txns (txns ?b2) (txns am)" using l1 by simp
  from snoc.IH [OF m b2 this] obtain b0 where
    "dropLoop (int (length (blocks am)) - 1) (int (length (blocks a0)) - 1) ?b2 = (b0, None)"
    "blocks b0 = blocks a0" "le_txns (txns b0) (txns a0)"
    by blast
  moreover have "?i - 1 = int (length (blocks am)) - 1" using bn by simp
  ultimately show ?case using step by auto
qed

lemma le_flags_unspent_eq:
  assumes "list_all2 (\<lambda>x y. x \<longrightarrow> y) sx sa" "\<forall>spent \<in> set sa. \<not> spent"
  shows "sx = sa"
  using assms by (induction sx sa rule: list_all2_induct) auto

lemma le_entry_unspent_eq:
  assumes "le_entry e' e" "\<forall>spent \<in> set (spentBuf e). \<not> spent"
  shows "e' = e"
proof -
  have "spentBuf e' = spentBuf e"
    using assms by (intro le_flags_unspent_eq) (simp_all add: le_entry_def)
  with assms(1) show ?thesis by (simp add: le_entry_def)
qed

lemma le_entries_unspent_eq:
  assumes "list_all2 le_entry xs es" "\<forall>e \<in> set es. \<forall>spent \<in> set (spentBuf e). \<not> spent"
  shows "xs = es"
  using assms by (induction xs es rule: list_all2_induct) (auto dest: le_entry_unspent_eq)

text \<open>
  Below a tx map without set flags there is only that map itself.
\<close>

lemma le_txns_allUnspent_eq:
  assumes "le_txns m' m" "allUnspent m"
  shows "m' = m"
proof
  fix h
  from assms(1) have r: "rel_option (list_all2 le_entry) (m' h) (m h)" by (simp add: le_txns_def)
  show "m' h = m h"
  proof (cases "m h")
    case None
    with r show ?thesis by (cases "m' h") simp_all
  next
    case (Some es)
    with r obtain xs where x: "m' h = Some xs" "list_all2 le_entry xs es"
      by (cases "m' h") simp_all
    from assms(2) Some have "\<forall>e \<in> set es. \<forall>spent \<in> set (spentBuf e). \<not> spent"
      unfolding allUnspent_def by blast
    with x(2) have "xs = es" by (rule le_entries_unspent_eq)
    with x Some show ?thesis by simp
  qed
qed

lemma allUnspent_lookup:
  "allUnspent m \<Longrightarrow> m h = Some es \<Longrightarrow> e \<in> set es \<Longrightarrow> spent \<in> set (spentBuf e) \<Longrightarrow> \<not> spent"
  unfolding allUnspent_def by blast

lemma allUnspent_push:
  assumes "allUnspent m"
  shows "allUnspent (m(h \<mapsto> (case m h of None \<Rightarrow> [] | Some txs \<Rightarrow> txs) @
           [\<lparr>blockHeight = nh, offset = i, spentBuf = replicate n False\<rparr>]))"
  unfolding allUnspent_def
proof (intro allI impI ballI)
  fix k es e spent
  assume k: "(m(h \<mapsto> (case m h of None \<Rightarrow> [] | Some txs \<Rightarrow> txs) @
           [\<lparr>blockHeight = nh, offset = i, spentBuf = replicate n False\<rparr>])) k = Some es"
    and e: "e \<in> set es" and s: "spent \<in> set (spentBuf e)"
  show "\<not> spent"
  proof (cases "k = h")
    case False
    with k have "m k = Some es" by simp
    from allUnspent_lookup [OF assms this e s] show ?thesis .
  next
    case True
    with k have es: "es = (case m h of None \<Rightarrow> [] | Some txs \<Rightarrow> txs) @
           [\<lparr>blockHeight = nh, offset = i, spentBuf = replicate n False\<rparr>]" by simp
    show ?thesis
    proof (cases "m h")
      case None
      with es e s show ?thesis by auto
    next
      case (Some old)
      with es e have "e \<in> set old \<or> e = \<lparr>blockHeight = nh, offset = i, spentBuf = replicate n False\<rparr>"
        by auto
      then show ?thesis
      proof
        assume "e \<in> set old"
        from allUnspent_lookup [OF assms Some this s] show ?thesis .
      next
        assume "e = \<lparr>blockHeight = nh, offset = i, spentBuf = replicate n False\<rparr>"
        with s show ?thesis by auto
      qed
    qed
  qed
qed

lemma insertTx_coinbase_allUnspent:
  assumes "forEach (insertTx nh) itxs a = (a', None)"
    and "\<forall>x \<in> set itxs. isCoinBaseTx (snd x) = Inr True"
    and "allUnspent (txns a)"
  shows "allUnspent (txns a')"
  using assms
proof (induction itxs arbitrary: a)
  case Nil
  then show ?case by simp
next
  case (Cons x rest)
  obtain i tx where x: "x = (i, tx)" by (cases x)
  from Cons.prems(1) obtain ax where s: "insertTx nh (i, tx) a = (ax, None)"
    and r: "forEach (insertTx nh) rest ax = (a', None)"
    unfolding forEach_Cons_None x by blast
  from Cons.prems(2) x have c: "isCoinBaseTx tx = Inr True" by simp
  with insertTx_None [OF s]
  have ax: "ax = a\<lparr>txns := (txns a)(TxSha tx \<mapsto>
              (case txns a (TxSha tx) of None \<Rightarrow> [] | Some txs \<Rightarrow> txs) @
              [\<lparr>blockHeight = nh, offset = i, spentBuf = replicate (TxOut tx) False\<rparr>])\<rparr>"
    by simp
  have "allUnspent (txns ax)"
    unfolding ax using allUnspent_push [OF Cons.prems(3)] by simp
  from Cons.IH [OF r _ this] Cons.prems(2) show ?case by simp
qed

subsection \<open>Rollback to the genesis block\<close>

text \<open>
  Claim C1, as the code has it. Take a sequence of valid inserts into a fresh store that
  starts with a genesis block of coinbase transactions and goes on with fewer than
  \<open>2^31\<close> blocks whose hashes differ from the genesis hash. Then \<open>DropAfterBlockBySha\<close> of
  the genesis hash succeeds, the block vector holds the genesis block alone, and the tx
  map, spent flags included, is the one the store had right after the genesis insert:
  the genesis transactions with every flag false.
\<close>

theorem drop_to_genesis_restores:
  assumes "insertBlocks newMemDb (g # bs) = Some db"
    and "\<forall>tx \<in> set (Transactions g). isCoinBaseTx tx = Inr True"
    and "\<forall>b \<in> set bs. BlockSha b \<noteq> BlockSha g"
    and "length bs < 2147483648"
  shows "\<exists>dbg db'. InsertBlock newMemDb g = (dbg, Inr 0) \<and>
           DropAfterBlockBySha db (BlockSha g) = (db', None) \<and>
           blocks db' = [g] \<and> txns db' = txns dbg \<and> allUnspent (txns db')"
proof -
  from assms(1) obtain dbg h where ig: "InsertBlock newMemDb g = (dbg, Inr h)"
    and rest: "insertBlocks dbg bs = Some db"
    by (cases "InsertBlock newMemDb g") (auto split: sum.splits)
  have ne0: "nonEmptyLists (txns newMemDb)" by (simp add: newMemDb_def nonEmptyLists_def)
  have h0: "h = 0" using InsertBlock_Inr [OF ig] by (simp add: newMemDb_def int32_def)
  have bg: "blocks dbg = [g]" and cg: "\<not> closed dbg" and neg: "nonEmptyLists (txns dbg)"
    and sg: "blocksBySha dbg (BlockSha g) = Some 0"
    using InsertBlock_Inr_facts [OF ig ne0] by (simp_all add: newMemDb_def int32_def)
  let ?a = "newMemDb\<lparr>blocks := blocks newMemDb @ [g],
                       blocksBySha := (blocksBySha newMemDb)(BlockSha g \<mapsto> h)\<rparr>"
  have f: "forEach (insertTx h) (enumerate 0 (Transactions g)) ?a = (dbg, None)"
    using InsertBlock_Inr [OF ig] by blast
  have "\<forall>x \<in> set (enumerate 0 (Transactions g)). isCoinBaseTx (snd x) = Inr True"
    using assms(2) by (auto simp: in_set_enumerate_eq)
  moreover have "allUnspent (txns ?a)" by (simp add: newMemDb_def allUnspent_def)
  ultimately have ug: "allUnspent (txns dbg)" by (rule insertTx_coinbase_allUnspent [OF f])
  from insertBlocks_facts [OF rest neg] bg cg
  have bd: "blocks db = g # bs" and cd: "\<not> closed db" by simp_all
  have sd: "blocksBySha db (BlockSha g) = Some 0"
    using insertBlocks_blocksBySha [OF rest neg assms(3)] sg by simp
  have e: "int32 (int (length (blocks db)) - 1) = int (length (blocks db)) - 1"
    using assms(4) bd by (simp add: int32_id)
  from dropLoop_undoes [OF rest refl le_txns_refl neg] bg
  obtain b0 where d: "dropLoop (int (length (blocks db)) - 1) 0 db = (b0, None)"
    and b0: "blocks b0 = [g]" and l0: "le_txns (txns b0) (txns dbg)"
    by auto
  have "DropAfterBlockBySha db (BlockSha g) = (b0, None)"
    by (simp add: DropAfterBlockBySha_def cd sd e d)
  moreover have "txns b0 = txns dbg" using l0 ug by (rule le_txns_allUnspent_eq)
  ultimately show ?thesis using ig h0 b0 ug by auto
qed

text \<open>Scenario S4: the genesis block, \<open>blkB1\<close> and \<open>blkB2\<close>, then the rollback.\<close>

lemma dbB2_inserted: "insertBlocks newMemDb [blkG, blkB1, blkB2] = Some dbB2"
  by (simp add: dbB2_def ledger_eval)

theorem drop_to_genesis_restores_witness:
  "insertBlocks newMemDb [blkG, blkB1, blkB2] = Some dbB2 \<and>
   map isCoinBaseTx (Transactions blkG) = [Inr True] \<and>
   map BlockSha [blkG, blkB1, blkB2] = [100, 103, 104] \<and>
   snd (DropAfterBlockBySha dbB2 (BlockSha blkG)) = None \<and>
   blocks (fst (DropAfterBlockBySha dbB2 (BlockSha blkG))) = [blkG] \<and>
   txns (fst (DropAfterBlockBySha dbB2 (BlockSha blkG))) = txns dbG \<and>
   txns dbG 1 = Some [\<lparr>blockHeight = 0, offset = 0, spentBuf = [False]\<rparr>]"
proof -
  have 1: "\<forall>tx \<in> set (Transactions blkG). isCoinBaseTx tx = Inr True"
    by (simp add: ledger_eval)
  have 2: "\<forall>b \<in> set [blkB1, blkB2]. BlockSha b \<noteq> BlockSha blkG"
    by (simp add: blkB1_def blkB2_def blkG_def)
  have 3: "length [blkB1, blkB2] < 2147483648" by simp
  have 4: "map isCoinBaseTx (Transactions blkG) = [Inr True]" by (simp add: ledger_eval)
  have 5: "map BlockSha [blkG, blkB1, blkB2] = [100, 103, 104]"
    by (simp add: blkB1_def blkB2_def blkG_def)
  have 6: "txns dbG 1 = Some [\<lparr>blockHeight = 0, offset = 0, spentBuf = [False]\<rparr>]"
    by (simp add: ledger_eval)
  from drop_to_genesis_restores [OF dbB2_inserted 1 2 3]
  show ?thesis using dbB2_inserted 4 5 6 by (auto simp: dbG_def)
qed

text \<open>
  Claim C1 as stated fails. After the valid inserts of \<open>blkG\<close> and \<open>blkB1\<close> and the
  rollback to \<open>blkG\<close>, the store is not the fresh one: the block vector holds \<open>blkG\<close> and the
  tx map holds its transaction. Nor does the block vector have the size of the hash
  map: it holds one block, the hash map two hashes.
\<close>

theorem drop_to_genesis_not_fresh:
  "snd (InsertBlock newMemDb blkG) = Inr 0 \<and>
   snd (InsertBlock dbG blkB1) = Inr 1 \<and>
   snd (DropAfterBlockBySha (fst (InsertBlock dbG blkB1)) (BlockSha blkG)) = None \<and>
   blocks (fst (DropAfterBlockBySha (fst (InsertBlock dbG blkB1)) (BlockSha blkG))) = [blkG] \<and>
   txns (fst (DropAfterBlockBySha (fst (InsertBlock dbG blkB1)) (BlockSha blkG))) 1 \<noteq> None \<and>
   blocksBySha (fst (DropAfterBlockBySha (fst (InsertBlock dbG blkB1)) (BlockSha blkG))) 103 =
     Some 1 \<and>
   card (dom (blocksBySha
     (fst (DropAfterBlockBySha (fst (InsertBlock dbG blkB1)) (BlockSha blkG))))) = 2 \<and>
   length (blocks (fst (DropAfterBlockBySha (fst (InsertBlock dbG blkB1)) (BlockSha blkG)))) \<noteq>
   card (dom (blocksBySha
     (fst (DropAfterBlockBySha (fst (InsertBlock dbG blkB1)) (BlockSha blkG)))))"
  by (simp add: ledger_eval dropLoop.simps)

end
